theory Spec2Isabelle
  imports Main "HOL-Library.Sublist"
begin

section \<open>Graph model\<close>

text \<open>
  The diagram envelope of \<^verbatim>\<open>src/utils/compression.ts\<close> (\<^verbatim>\<open>ArchitectureData\<close>) and the three
  entity kinds it carries. The TypeScript objects of all three kinds use the field names
  \<^verbatim>\<open>id\<close>, \<^verbatim>\<open>name\<close>, \<^verbatim>\<open>color\<close>, \<^verbatim>\<open>x\<close>, \<^verbatim>\<open>y\<close>; record fields are global constants, so each
  field carries the entity as a prefix (\<open>item_\<close> for an element of \<^verbatim>\<open>boardItems\<close>, \<open>cont_\<close> for
  an element of \<^verbatim>\<open>containers\<close>, \<open>conn_\<close> for an element of \<^verbatim>\<open>connections\<close>).

  An optional field is an \<open>option\<close>: \<open>None\<close> stands for a field that is absent, \<^verbatim>\<open>undefined\<close>
  or \<^verbatim>\<open>null\<close>. Numbers are integers (canvas coordinates, sizes, the timestamp and the zoom
  percentage are integral in the application). Strings are byte lists.
\<close>

record boardItem =
  item_id :: string
  item_name :: string
  item_customName :: "string option"
  item_color :: string
  item_category :: string
  item_x :: int
  item_y :: int
  item_parentContainerId :: "string option"
  item_type :: string

record container =
  cont_id :: string
  cont_name :: string
  cont_color :: string
  cont_borderStyle :: "string option"
  cont_x :: int
  cont_y :: int
  cont_width :: int
  cont_height :: int
  cont_parentContainerId :: "string option"
  cont_type :: string

record connection =
  conn_id :: string
  conn_from :: string
  conn_to :: string
  conn_label :: "string option"

record settings =
  zoomLevel :: "int option"

record ArchitectureData =
  version :: string
  timestamp :: int
  boardItems :: "boardItem list"
  containers :: "container list"
  connections :: "connection list"
  settings :: "settings option"

subsection \<open>JavaScript truthiness and string helpers\<close>

text \<open>
  \<^verbatim>\<open>if (v)\<close> and \<^verbatim>\<open>v || d\<close> test truthiness: an absent value, the empty string and the
  number 0 are falsy.
\<close>

definition truthy_str :: "string option \<Rightarrow> bool" where
  "truthy_str v = (case v of None \<Rightarrow> False | Some s \<Rightarrow> s \<noteq> [])"

definition truthy_num :: "int option \<Rightarrow> bool" where
  "truthy_num v = (case v of None \<Rightarrow> False | Some n \<Rightarrow> n \<noteq> 0)"

text \<open>\<^verbatim>\<open>String.prototype.trim\<close> on the ASCII white space characters.\<close>

definition isspace :: "char \<Rightarrow> bool" where
  "isspace c = (c = CHR '' '' \<or> c = CHR 0x09 \<or> c = CHR 0x0A \<or> c = CHR 0x0B
     \<or> c = CHR 0x0C \<or> c = CHR 0x0D)"

definition trim :: "string \<Rightarrow> string" where
  "trim s = rev (dropWhile isspace (rev (dropWhile isspace s)))"

section \<open>Serialization codec: optimize and restore\<close>

text \<open>
  \<^verbatim>\<open>optimizeDataForCompression\<close>: a field-by-field copy that leaves out
  \<^verbatim>\<open>customName\<close> unless it is truthy and differs from \<^verbatim>\<open>name\<close>, \<^verbatim>\<open>parentContainerId\<close> unless
  truthy, \<^verbatim>\<open>borderStyle\<close> unless truthy and not \<^verbatim>\<open>'solid'\<close>, \<^verbatim>\<open>label\<close> unless it is truthy and
  its trimmed form is truthy, and \<^verbatim>\<open>settings\<close> unless \<^verbatim>\<open>settings?.zoomLevel\<close> is truthy and
  not 100.
\<close>

definition optimizeItem :: "boardItem \<Rightarrow> boardItem" where
  "optimizeItem item =
     \<lparr> item_id = item_id item, item_name = item_name item,
       item_customName =
         (if truthy_str (item_customName item) \<and> item_customName item \<noteq> Some (item_name item)
          then item_customName item else None),
       item_color = item_color item, item_category = item_category item,
       item_x = item_x item, item_y = item_y item,
       item_parentContainerId =
         (if truthy_str (item_parentContainerId item) then item_parentContainerId item else None),
       item_type = item_type item \<rparr>"

definition optimizeContainer :: "container \<Rightarrow> container" where
  "optimizeContainer c =
     \<lparr> cont_id = cont_id c, cont_name = cont_name c, cont_color = cont_color c,
       cont_borderStyle =
         (if truthy_str (cont_borderStyle c) \<and> cont_borderStyle c \<noteq> Some ''solid''
          then cont_borderStyle c else None),
       cont_x = cont_x c, cont_y = cont_y c,
       cont_width = cont_width c, cont_height = cont_height c,
       cont_parentContainerId =
         (if truthy_str (cont_parentContainerId c) then cont_parentContainerId c else None),
       cont_type = cont_type c \<rparr>"

definition optimizeConnection :: "connection \<Rightarrow> connection" where
  "optimizeConnection e =
     \<lparr> conn_id = conn_id e, conn_from = conn_from e, conn_to = conn_to e,
       conn_label =
         (if truthy_str (conn_label e) \<and> truthy_str (map_option trim (conn_label e))
          then conn_label e else None) \<rparr>"

definition settings_zoomLevel :: "settings option \<Rightarrow> int option" where
  \<comment> \<open>\<^verbatim>\<open>settings?.zoomLevel\<close>\<close>
  "settings_zoomLevel s = (case s of None \<Rightarrow> None | Some r \<Rightarrow> zoomLevel r)"

definition optimizeDataForCompression :: "ArchitectureData \<Rightarrow> ArchitectureData" where
  "optimizeDataForCompression d =
     \<lparr> version = version d, timestamp = timestamp d,
       boardItems = map optimizeItem (boardItems d),
       containers = map optimizeContainer (containers d),
       connections = map optimizeConnection (connections d),
       settings =
         (if truthy_num (settings_zoomLevel (settings d)) \<and> settings_zoomLevel (settings d) \<noteq> Some 100
          then Some \<lparr> zoomLevel = settings_zoomLevel (settings d) \<rparr> else None) \<rparr>"

text \<open>
  \<^verbatim>\<open>restoreDataFromOptimized\<close>: spreads each object and overwrites the optional fields with
  \<^verbatim>\<open>field || default\<close>.
\<close>

definition restoreItem :: "boardItem \<Rightarrow> boardItem" where
  "restoreItem item =
     item \<lparr> item_customName :=
              (if truthy_str (item_customName item) then item_customName item else None),
            item_parentContainerId :=
              (if truthy_str (item_parentContainerId item) then item_parentContainerId item
               else None) \<rparr>"

definition restoreContainer :: "container \<Rightarrow> container" where
  "restoreContainer c =
     c \<lparr> cont_borderStyle :=
           (if truthy_str (cont_borderStyle c) then cont_borderStyle c else Some ''solid''),
         cont_parentContainerId :=
           (if truthy_str (cont_parentContainerId c) then cont_parentContainerId c else None) \<rparr>"

definition restoreConnection :: "connection \<Rightarrow> connection" where
  "restoreConnection e =
     e \<lparr> conn_label := (if truthy_str (conn_label e) then conn_label e else Some []) \<rparr>"

definition restoreDataFromOptimized :: "ArchitectureData \<Rightarrow> ArchitectureData" where
  "restoreDataFromOptimized d =
     \<lparr> version = version d, timestamp = timestamp d,
       boardItems = map restoreItem (boardItems d),
       containers = map restoreContainer (containers d),
       connections = map restoreConnection (connections d),
       settings =
         Some \<lparr> zoomLevel =
           (if truthy_num (settings_zoomLevel (settings d)) then settings_zoomLevel (settings d)
            else Some 100) \<rparr> \<rparr>"

subsection \<open>Default normalization\<close>

text \<open>
  The normalization as the specification words it: an override equal to the base name is
  no override, a null parent stays null, an absent border style is \<^verbatim>\<open>solid\<close>, an absent
  label is the empty label (and an empty label stays empty), an absent zoom level is 100.
\<close>

definition spec_normItem :: "boardItem \<Rightarrow> boardItem" where
  "spec_normItem item =
     item \<lparr> item_customName :=
       (if item_customName item = Some (item_name item) then None else item_customName item) \<rparr>"

definition spec_normContainer :: "container \<Rightarrow> container" where
  "spec_normContainer c =
     c \<lparr> cont_borderStyle :=
       (case cont_borderStyle c of None \<Rightarrow> Some ''solid'' | Some b \<Rightarrow> Some b) \<rparr>"

definition spec_normConnection :: "connection \<Rightarrow> connection" where
  "spec_normConnection e =
     e \<lparr> conn_label := (case conn_label e of None \<Rightarrow> Some [] | Some l \<Rightarrow> Some l) \<rparr>"

definition spec_normalize :: "ArchitectureData \<Rightarrow> ArchitectureData" where
  "spec_normalize d =
     \<lparr> version = version d, timestamp = timestamp d,
       boardItems = map spec_normItem (boardItems d),
       containers = map spec_normContainer (containers d),
       connections = map spec_normConnection (connections d),
       settings =
         Some \<lparr> zoomLevel =
           (case settings_zoomLevel (settings d) of None \<Rightarrow> Some 100 | Some z \<Rightarrow> Some z) \<rparr> \<rparr>"

text \<open>
  The normalization the code performs: besides the defaults above, a value that is present
  but falsy counts as absent (an empty override, an empty parent id, an empty border
  style, a zoom level of 0), and a label that is empty after trimming is the empty label.
\<close>

definition normItem :: "boardItem \<Rightarrow> boardItem" where
  "normItem item =
     item \<lparr> item_customName :=
              (if item_customName item = Some (item_name item) \<or> item_customName item = Some []
               then None else item_customName item),
            item_parentContainerId :=
              (if item_parentContainerId item = Some [] then None
               else item_parentContainerId item) \<rparr>"

definition normContainer :: "container \<Rightarrow> container" where
  "normContainer c =
     c \<lparr> cont_borderStyle :=
           (case cont_borderStyle c of None \<Rightarrow> Some ''solid''
            | Some b \<Rightarrow> if b = [] then Some ''solid'' else Some b),
         cont_parentContainerId :=
           (if cont_parentContainerId c = Some [] then None else cont_parentContainerId c) \<rparr>"

definition normConnection :: "connection \<Rightarrow> connection" where
  "normConnection e =
     e \<lparr> conn_label :=
       (case conn_label e of None \<Rightarrow> Some []
        | Some l \<Rightarrow> if trim l = [] then Some [] else Some l) \<rparr>"

definition code_normalize :: "ArchitectureData \<Rightarrow> ArchitectureData" where
  "code_normalize d =
     \<lparr> version = version d, timestamp = timestamp d,
       boardItems = map normItem (boardItems d),
       containers = map normContainer (containers d),
       connections = map normConnection (connections d),
       settings =
         Some \<lparr> zoomLevel =
           (case settings_zoomLevel (settings d) of None \<Rightarrow> Some 100
            | Some z \<Rightarrow> if z = 0 then Some 100 else Some z) \<rparr> \<rparr>"

text \<open>A diagram with one edge whose label is a single space, and nothing else.\<close>

definition blank_label_diagram :: ArchitectureData where
  "blank_label_diagram =
     \<lparr> version = ''1.0'', timestamp = 0, boardItems = [], containers = [],
       connections = [\<lparr> conn_id = ''conn-1'', conn_from = ''a'', conn_to = ''b'',
                        conn_label = Some '' '' \<rparr>],
       settings = Some \<lparr> zoomLevel = Some 100 \<rparr> \<rparr>"

text \<open>A diagram whose zoom level is 0, with one node and nothing else.\<close>

definition zero_zoom_diagram :: ArchitectureData where
  "zero_zoom_diagram =
     \<lparr> version = ''1.0'', timestamp = 0,
       boardItems = [\<lparr> item_id = ''ec2-1'', item_name = ''EC2'', item_customName = None,
                        item_color = ''#FF9900'', item_category = ''Compute'',
                        item_x = 100, item_y = 100, item_parentContainerId = None,
                        item_type = ''service'' \<rparr>],
       containers = [], connections = [],
       settings = Some \<lparr> zoomLevel = Some 0 \<rparr> \<rparr>"

text \<open>
  A diagram is \<open>plain\<close> when no optional value is present but falsy and no label consists
  of white space only: on plain diagrams the two normalizations agree.
\<close>

definition plain :: "ArchitectureData \<Rightarrow> bool" where
  "plain d =
     (list_all (\<lambda>i. item_customName i \<noteq> Some [] \<and> item_parentContainerId i \<noteq> Some [])
        (boardItems d) \<and>
      list_all (\<lambda>c. cont_borderStyle c \<noteq> Some [] \<and> cont_parentContainerId c \<noteq> Some [])
        (containers d) \<and>
      list_all (\<lambda>e. case conn_label e of None \<Rightarrow> True | Some l \<Rightarrow> l = [] \<or> trim l \<noteq> [])
        (connections d) \<and>
      settings_zoomLevel (settings d) \<noteq> Some 0)"

text \<open>The sample diagram of \<^verbatim>\<open>compression.test.ts\<close> (with a fixed timestamp).\<close>

definition sampleData :: ArchitectureData where
  "sampleData =
     \<lparr> version = ''1.0'', timestamp = 1700000000000,
       boardItems = [\<lparr> item_id = ''ec2-123'', item_name = ''EC2'', item_customName = None,
                        item_color = ''#FF9900'', item_category = ''Compute'',
                        item_x = 100, item_y = 100, item_parentContainerId = None,
                        item_type = ''service'' \<rparr>],
       containers = [\<lparr> cont_id = ''vpc-456'', cont_name = ''VPC'', cont_color = ''#FF6B6B'',
                        cont_borderStyle = Some ''solid'', cont_x = 50, cont_y = 50,
                        cont_width = 300, cont_height = 200, cont_parentContainerId = None,
                        cont_type = ''container'' \<rparr>],
       connections = [\<lparr> conn_id = ''conn-789'', conn_from = ''ec2-123'', conn_to = ''rds-456'',
                         conn_label = Some ''Database Connection'' \<rparr>],
       settings = Some \<lparr> zoomLevel = Some 100 \<rparr> \<rparr>"

section \<open>Serialization codec: compress and decompress\<close>

text \<open>
  What the codec takes from its environment: the two functions of the \<^verbatim>\<open>lz-string\<close> package
  and the built-in \<^verbatim>\<open>JSON.stringify\<close>, \<^verbatim>\<open>JSON.parse\<close> and \<^verbatim>\<open>atob\<close>. Each of them can throw, so
  each returns a sum. \<^verbatim>\<open>JSON_parse\<close> stands for \<^verbatim>\<open>JSON.parse\<close> followed by the cast to
  \<^verbatim>\<open>ArchitectureData\<close>: it is \<open>Inl\<close> when the text is not JSON (a \<^verbatim>\<open>SyntaxError\<close>) and when
  the parsed value is no diagram, so that \<^verbatim>\<open>restoreDataFromOptimized\<close> raises a \<^verbatim>\<open>TypeError\<close>
  on it; both are raised inside the same \<^verbatim>\<open>try\<close> block. The decompressor returns \<^verbatim>\<open>null\<close>
  (\<open>None\<close>) or a string.
\<close>

datatype error =
    Error_invalid_data       \<comment> \<open>thrown by \<^verbatim>\<open>compressData\<close> on a missing diagram\<close>
  | Error_compress_failed    \<comment> \<open>thrown inside the \<^verbatim>\<open>try\<close> block on an empty result\<close>
  | Error_compressing        \<comment> \<open>thrown by the \<^verbatim>\<open>catch\<close> block of \<^verbatim>\<open>compressData\<close>\<close>
  | SyntaxError | TypeError | InvalidCharacterError

record runtime =
  compressToEncodedURIComponent :: "string \<Rightarrow> error + string"
  decompressFromEncodedURIComponent :: "string \<Rightarrow> error + string option"
  JSON_stringify :: "ArchitectureData \<Rightarrow> error + string"
  JSON_parse :: "string \<Rightarrow> error + ArchitectureData"
  atob :: "string \<Rightarrow> error + string"

definition try_catch :: "error + 'a \<Rightarrow> (error \<Rightarrow> error + 'a) \<Rightarrow> error + 'a" where
  "try_catch body handler = (case body of Inl e \<Rightarrow> handler e | Inr v \<Rightarrow> Inr v)"

text \<open>
  The value that reaches \<^verbatim>\<open>compressData\<close> as \<^verbatim>\<open>data\<close>. The declared type
  (\<^verbatim>\<open>boardItems: any[]\<close> and so on) is not checked at run time: the share dialog passes the
  component's state, and \<^verbatim>\<open>executeImport\<close> stores under \<^verbatim>\<open>boardItems\<close>, \<^verbatim>\<open>containers\<close> and
  \<^verbatim>\<open>connections\<close> whatever truthy value the imported JSON holds there. So each of the three
  collections is either an array (\<open>Some\<close>) or a value that is no array, such as
  \<^verbatim>\<open>undefined\<close>, a number or an object (\<open>None\<close>); calling \<^verbatim>\<open>.map\<close> on the latter raises a
  \<^verbatim>\<open>TypeError\<close>. The elements of an array are taken to be objects of the declared shape.
  \<open>js_of\<close> is a diagram as such a value, and \<open>optimize_call\<close> is the call
  \<^verbatim>\<open>optimizeDataForCompression(data)\<close> on it.
\<close>

record js_data =
  js_version :: string
  js_timestamp :: int
  js_boardItems :: "boardItem list option"
  js_containers :: "container list option"
  js_connections :: "connection list option"
  js_settings :: "settings option"

definition js_of :: "ArchitectureData \<Rightarrow> js_data" where
  "js_of d =
     \<lparr> js_version = version d, js_timestamp = timestamp d,
       js_boardItems = Some (boardItems d), js_containers = Some (containers d),
       js_connections = Some (connections d), js_settings = settings d \<rparr>"

definition optimize_call :: "js_data \<Rightarrow> error + ArchitectureData" where
  "optimize_call data =
     (case js_boardItems data of
        None \<Rightarrow> Inl TypeError
      | Some bs \<Rightarrow>
          (case js_containers data of
             None \<Rightarrow> Inl TypeError
           | Some cs \<Rightarrow>
               (case js_connections data of
                  None \<Rightarrow> Inl TypeError
                | Some es \<Rightarrow>
                    Inr (optimizeDataForCompression
                           \<lparr> version = js_version data, timestamp = js_timestamp data,
                             boardItems = bs, containers = cs, connections = es,
                             settings = js_settings data \<rparr>))))"

definition compressData :: "runtime \<Rightarrow> js_data option \<Rightarrow> error + string" where
  "compressData R data =
     (case data of
        None \<Rightarrow> Inl Error_invalid_data
      | Some d \<Rightarrow>
          try_catch
            (case optimize_call d of
               Inl e \<Rightarrow> Inl e
             | Inr optimizedData \<Rightarrow>
                 (case JSON_stringify R optimizedData of
                    Inl e \<Rightarrow> Inl e
                  | Inr jsonString \<Rightarrow>
                      (case compressToEncodedURIComponent R jsonString of
                         Inl e \<Rightarrow> Inl e
                       | Inr compressed \<Rightarrow>
                           if compressed = [] then Inl Error_compress_failed
                           else Inr compressed)))
            (\<lambda>error. Inl Error_compressing))"

definition parse_and_restore :: "runtime \<Rightarrow> string \<Rightarrow> error + ArchitectureData option" where
  \<comment> \<open>\<^verbatim>\<open>const parsed = JSON.parse(text); return restoreDataFromOptimized(parsed)\<close>\<close>
  "parse_and_restore R text =
     (case JSON_parse R text of
        Inl e \<Rightarrow> Inl e
      | Inr parsed \<Rightarrow> Inr (Some (restoreDataFromOptimized parsed)))"

definition base64_fallback :: "runtime \<Rightarrow> string \<Rightarrow> bool \<Rightarrow> error + ArchitectureData option" where
  \<comment> \<open>the statements after the \<^verbatim>\<open>if (decompressed)\<close> block: the inner \<^verbatim>\<open>try\<close> and \<^verbatim>\<open>return null\<close>\<close>
  "base64_fallback R compressedData fallbackToBase64 =
     (if fallbackToBase64 then
        try_catch
          (case atob R compressedData of
             Inl e \<Rightarrow> Inl e
           | Inr base64Decoded \<Rightarrow> parse_and_restore R base64Decoded)
          (\<lambda>base64Error. Inr None)
      else Inr None)"

definition decompressData :: "runtime \<Rightarrow> string \<Rightarrow> bool \<Rightarrow> error + ArchitectureData option" where
  "decompressData R compressedData fallbackToBase64 =
     (if compressedData = [] \<or> trim compressedData = [] then Inr None
      else
        try_catch
          (case decompressFromEncodedURIComponent R compressedData of
             Inl e \<Rightarrow> Inl e
           | Inr decompressed \<Rightarrow>
               (case decompressed of
                  None \<Rightarrow> base64_fallback R compressedData fallbackToBase64
                | Some text \<Rightarrow>
                    if text \<noteq> [] then parse_and_restore R text
                    else base64_fallback R compressedData fallbackToBase64))
          (\<lambda>error. Inr None))"

text \<open>
  A stand-in runtime for concrete evaluation: the compressor puts one letter in front of
  the text and the decompressor takes it off again (and returns \<^verbatim>\<open>null\<close> on any other text);
  the JSON pair knows the optimized sample diagram and the optimized blank-label diagram
  only; \<^verbatim>\<open>atob\<close> decodes one text and rejects every other. In \<open>empty_runtime\<close> the compressor
  returns the empty string, and in \<open>throwing_runtime\<close> the serializer throws.
\<close>

definition toy_runtime :: runtime where
  "toy_runtime =
     \<lparr> compressToEncodedURIComponent = (\<lambda>s. Inr (CHR ''N'' # s)),
       decompressFromEncodedURIComponent =
         (\<lambda>s. case s of [] \<Rightarrow> Inr (Some [])
               | c # r \<Rightarrow> if c = CHR ''N'' then Inr (Some r) else Inr None),
       JSON_stringify =
         (\<lambda>d. if d = optimizeDataForCompression sampleData then Inr ''{sample}''
               else if d = optimizeDataForCompression blank_label_diagram then Inr ''{blank}''
               else Inr ''{}''),
       JSON_parse =
         (\<lambda>s. if s = ''{sample}'' then Inr (optimizeDataForCompression sampleData)
               else if s = ''{blank}'' then Inr (optimizeDataForCompression blank_label_diagram)
               else Inl SyntaxError),
       atob = (\<lambda>s. if s = ''e3NhbXBsZX0='' then Inr ''{sample}'' else Inl InvalidCharacterError) \<rparr>"




section \<open>Hierarchy resolver\<close>

text \<open>
  \<^verbatim>\<open>isItemInContainer\<close>, \<^verbatim>\<open>findParentContainer\<close> and \<^verbatim>\<open>wouldCreateCircularReference\<close> of
  \<^verbatim>\<open>App.tsx\<close>. They read the component's \<^verbatim>\<open>containers\<close> state, which is the first argument
  here.
\<close>

definition isItemInContainer :: "int \<Rightarrow> int \<Rightarrow> int \<Rightarrow> int \<Rightarrow> container \<Rightarrow> bool" where
  "isItemInContainer itemX itemY itemWidth itemHeight c =
     (itemX \<ge> cont_x c \<and> itemY \<ge> cont_y c \<and>
      itemX + itemWidth \<le> cont_x c + cont_width c \<and>
      itemY + itemHeight \<le> cont_y c + cont_height c)"

definition area :: "container \<Rightarrow> int" where
  "area c = cont_width c * cont_height c"

text \<open>
  \<^verbatim>\<open>containers.filter(...).sort((a, b) => a.width * a.height - b.width * b.height)[0] || null\<close>.
  \<^verbatim>\<open>Array.prototype.sort\<close> is stable, as is \<^const>\<open>sort_key\<close> (insertion sort). The excluded
  id defaults to \<^verbatim>\<open>null\<close>, which no id equals.
\<close>

definition findParentContainer ::
  "container list \<Rightarrow> int \<Rightarrow> int \<Rightarrow> int \<Rightarrow> int \<Rightarrow> string option \<Rightarrow> container option" where
  "findParentContainer cs itemX itemY itemWidth itemHeight excludeContainerId =
     (case sort_key area
             (filter (\<lambda>c. Some (cont_id c) \<noteq> excludeContainerId \<and>
                           isItemInContainer itemX itemY itemWidth itemHeight c) cs) of
        [] \<Rightarrow> None
      | c # _ \<Rightarrow> Some c)"

text \<open>Two overlapping groups, the second inside the first, and a third of the second's area.\<close>

definition group_at :: "string \<Rightarrow> int \<Rightarrow> int \<Rightarrow> int \<Rightarrow> int \<Rightarrow> string option \<Rightarrow> container" where
  "group_at i gx gy gw gh parent =
     \<lparr> cont_id = i, cont_name = i, cont_color = ''#FF6B6B'', cont_borderStyle = Some ''solid'',
       cont_x = gx, cont_y = gy, cont_width = gw, cont_height = gh,
       cont_parentContainerId = parent, cont_type = ''container'' \<rparr>"

definition overlapping_groups :: "container list" where
  "overlapping_groups =
     [group_at ''outer'' 0 0 400 300 None,
      group_at ''inner'' 50 50 200 100 (Some ''outer''),
      group_at ''twin'' 40 40 100 200 (Some ''outer'')]"



text \<open>
  The ancestor chain in the words of the specification: \<open>parent_of cs i\<close> is the
  \<^verbatim>\<open>parentContainerId\<close> of the group with id \<open>i\<close>, and the chain of \<open>i\<close> is what the
  reflexive transitive closure of that step reaches.
\<close>

definition parent_of :: "container list \<Rightarrow> string \<Rightarrow> string option" where
  "parent_of cs i =
     (case find (\<lambda>c. cont_id c = i) cs of None \<Rightarrow> None | Some c \<Rightarrow> cont_parentContainerId c)"

definition ancestor_step :: "container list \<Rightarrow> (string \<times> string) set" where
  "ancestor_step cs = {(p, q). parent_of cs p = Some q}"


section \<open>DSL parser\<close>

subsection \<open>Strings and regular expressions\<close>

text \<open>
  \<^verbatim>\<open>String.prototype.includes\<close>, \<^verbatim>\<open>startsWith\<close>, \<^verbatim>\<open>toLowerCase\<close> (on ASCII letters),
  \<^verbatim>\<open>split('\n')\<close> and the decimal form of a number inside a template literal.
\<close>

fun js_includes :: "string \<Rightarrow> string \<Rightarrow> bool" where
  "js_includes [] t = (t = [])"
| "js_includes (x # xs) t = (prefix t (x # xs) \<or> js_includes xs t)"

definition startsWith :: "string \<Rightarrow> string \<Rightarrow> bool" where
  "startsWith s t = prefix t s"

definition toLowerCase :: "string \<Rightarrow> string" where
  "toLowerCase s =
     map (\<lambda>c. case map_of (zip ''ABCDEFGHIJKLMNOPQRSTUVWXYZ'' ''abcdefghijklmnopqrstuvwxyz'') c of
                None \<Rightarrow> c
              | Some l \<Rightarrow> l) s"

fun split_on :: "char \<Rightarrow> string \<Rightarrow> string list" where
  "split_on sep [] = [[]]"
| "split_on sep (x # xs) =
     (if x = sep then [] # split_on sep xs
      else (case split_on sep xs of [] \<Rightarrow> [[x]] | w # ws \<Rightarrow> (x # w) # ws))"

definition digit :: "nat \<Rightarrow> char" where
  "digit d = ''0123456789'' ! d"

fun show_nat :: "nat \<Rightarrow> string" where
  "show_nat n = (if n < 10 then [digit n] else show_nat (n div 10) @ [digit (n mod 10)])"

declare show_nat.simps [simp del]

text \<open>
  The three regular expressions of the parser use literals, greedy repetitions of a
  character class, an optional part and capture groups. \<open>re_exec\<close> is a backtracking
  matcher in continuation-passing style: a greedy repetition first takes the longest run
  and gives characters back one at a time while the rest fails. \<open>re_search\<close> is the
  unanchored search of \<^verbatim>\<open>String.prototype.match\<close>: the leftmost start that matches.
\<close>

datatype regex =
    Lit string
  | Star "char \<Rightarrow> bool"
  | Plus "char \<Rightarrow> bool"
  | Opt regex
  | Group nat regex
  | Seq regex regex

type_synonym captures = "nat \<Rightarrow> string option"

fun greedy :: "nat \<Rightarrow> nat \<Rightarrow> string \<Rightarrow> (string \<Rightarrow> 'r option) \<Rightarrow> 'r option" where
  "greedy lo 0 s k = (if lo = 0 then k s else None)"
| "greedy lo (Suc n) s k =
     (if Suc n < lo then None
      else case k (drop (Suc n) s) of Some r \<Rightarrow> Some r | None \<Rightarrow> greedy lo n s k)"

fun re_exec :: "regex \<Rightarrow> string \<Rightarrow> captures \<Rightarrow> (string \<Rightarrow> captures \<Rightarrow> 'r option) \<Rightarrow> 'r option" where
  "re_exec (Lit t) s c k = (if prefix t s then k (drop (length t) s) c else None)"
| "re_exec (Star p) s c k = greedy 0 (length (takeWhile p s)) s (\<lambda>s'. k s' c)"
| "re_exec (Plus p) s c k = greedy 1 (length (takeWhile p s)) s (\<lambda>s'. k s' c)"
| "re_exec (Opt r) s c k = (case re_exec r s c k of Some x \<Rightarrow> Some x | None \<Rightarrow> k s c)"
| "re_exec (Group i r) s c k =
     re_exec r s c (\<lambda>s' c'. k s' (c'(i \<mapsto> take (length s - length s') s)))"
| "re_exec (Seq r1 r2) s c k = re_exec r1 s c (\<lambda>s' c'. re_exec r2 s' c' k)"

fun re_search :: "regex \<Rightarrow> string \<Rightarrow> captures option" where
  "re_search r [] = re_exec r [] (\<lambda>_. None) (\<lambda>_ c. Some c)"
| "re_search r (x # xs) =
     (case re_exec r (x # xs) (\<lambda>_. None) (\<lambda>_ c. Some c) of
        Some c \<Rightarrow> Some c
      | None \<Rightarrow> re_search r xs)"

fun seqs :: "regex list \<Rightarrow> regex" where
  "seqs [] = Lit []"
| "seqs [r] = r"
| "seqs (r # rs) = Seq r (seqs rs)"

definition is_word :: "char \<Rightarrow> bool" where
  \<comment> \<open>\<^verbatim>\<open>\w\<close>\<close>
  "is_word c = (let n = (of_char c :: nat) in
     (97 \<le> n \<and> n \<le> 122) \<or> (65 \<le> n \<and> n \<le> 90) \<or> (48 \<le> n \<and> n \<le> 57) \<or> n = 95)"

definition dquote :: char where
  "dquote = CHR 0x22"

definition labelled_regex :: "regex list" where
  \<comment> \<open>\<^verbatim>\<open>(\w+)\s*\[label:\s*"([^"]+)",?\s*icon:\s*([^\]]+)\]\<close>\<close>
  "labelled_regex =
     [Group 1 (Plus is_word), Star isspace, Lit ''[label:'', Star isspace,
      Lit [dquote], Group 2 (Plus (\<lambda>c. c \<noteq> dquote)), Lit [dquote], Opt (Lit '',''),
      Star isspace, Lit ''icon:'', Star isspace, Group 3 (Plus (\<lambda>c. c \<noteq> CHR '']'')),
      Lit '']'']"

definition group_regex :: regex where
  \<comment> \<open>\<^verbatim>\<open>/(\w+)\s*\[label:\s*"([^"]+)",?\s*icon:\s*([^\]]+)\]\s*\{/\<close>\<close>
  "group_regex = seqs (labelled_regex @ [Star isspace, Lit ''{''])"

definition item_regex :: regex where
  \<comment> \<open>\<^verbatim>\<open>/(\w+)\s*\[label:\s*"([^"]+)",?\s*icon:\s*([^\]]+)\]/\<close>\<close>
  "item_regex = seqs labelled_regex"

definition connection_regex :: regex where
  \<comment> \<open>\<^verbatim>\<open>/(\w+)\s*>\s*(\w+)(?:\s*:\s*"([^"]+)")?/\<close>\<close>
  "connection_regex =
     seqs [Group 1 (Plus is_word), Star isspace, Lit ''>'', Star isspace,
           Group 2 (Plus is_word),
           Opt (seqs [Star isspace, Lit '':'', Star isspace, Lit [dquote],
                      Group 3 (Plus (\<lambda>c. c \<noteq> dquote)), Lit [dquote]])]"

text \<open>
  \<^verbatim>\<open>line.match(re)\<close> destructured as \<^verbatim>\<open>[, a, b, c]\<close>: \<open>None\<close> when there is no match. The
  first two groups of each expression and the third of the first two expressions take part
  in every match; the label group of a connection may be undefined.
\<close>

definition match3 :: "regex \<Rightarrow> string \<Rightarrow> (string \<times> string \<times> string) option" where
  "match3 r line =
     (case re_search r line of
        None \<Rightarrow> None
      | Some c \<Rightarrow> (case (c 1, c 2, c 3) of
                     (Some a, Some b, Some d) \<Rightarrow> Some (a, b, d)
                   | _ \<Rightarrow> None))"

definition match2o :: "regex \<Rightarrow> string \<Rightarrow> (string \<times> string \<times> string option) option" where
  "match2o r line =
     (case re_search r line of
        None \<Rightarrow> None
      | Some c \<Rightarrow> (case (c 1, c 2) of
                     (Some a, Some b) \<Rightarrow> Some (a, b, c 3)
                   | _ \<Rightarrow> None))"

subsection \<open>Classification tables and the environment\<close>

text \<open>
  \<^verbatim>\<open>getServiceFromIcon\<close> looks the label up in \<^verbatim>\<open>labelServiceMap\<close>, then the icon name in
  \<^verbatim>\<open>iconMap\<close>, and falls back to an unknown service. The two tables are literal data of the
  source and parameters here, together with the clock and the random source: \<open>Date_now k\<close>
  is what \<^verbatim>\<open>Date.now()\<close> returns while line \<open>k\<close> is processed, \<open>Math_random k\<close> what
  \<^verbatim>\<open>Math.random().toString(36).substr(2, 9)\<close> returns there.
\<close>

record serviceInfo =
  si_id :: string
  si_name :: string
  si_color :: string
  si_category :: string

record environment =
  labelServiceMap :: "string \<Rightarrow> serviceInfo option"
  iconMap :: "string \<Rightarrow> serviceInfo option"
  Date_now :: "nat \<Rightarrow> nat"
  Math_random :: "nat \<Rightarrow> string"

definition getServiceFromIcon :: "environment \<Rightarrow> string \<Rightarrow> string \<Rightarrow> serviceInfo" where
  "getServiceFromIcon E iconName labelName =
     (case (if labelName \<noteq> [] then labelServiceMap E labelName else None) of
        Some info \<Rightarrow> info
      | None \<Rightarrow>
          (case iconMap E iconName of
             Some info \<Rightarrow> info
           | None \<Rightarrow> \<lparr> si_id = ''unknown'',
                        si_name = (if labelName \<noteq> [] then labelName else ''Unknown Service''),
                        si_color = ''#6B7280'', si_category = ''Other'' \<rparr>))"

subsection \<open>The parser state and its loop\<close>

text \<open>
  The local variables of \<^verbatim>\<open>parseEraserFormat\<close>. The stack has its innermost group last.
  \<open>lineNo\<close> counts the lines processed so far; it indexes the clock and the random source.
\<close>

record parser =
  p_items :: "boardItem list"
  p_containers :: "container list"
  p_connections :: "connection list"
  groupStack :: "container list"
  itemCounter :: nat
  containerCounter :: nat
  itemIdMap :: "string \<Rightarrow> boardItem option"
  containerIdMap :: "string \<Rightarrow> container option"
  lineNo :: nat

definition initial_parser :: parser where
  "initial_parser =
     \<lparr> p_items = [], p_containers = [], p_connections = [], groupStack = [],
       itemCounter = 0, containerCounter = 0,
       itemIdMap = (\<lambda>_. None), containerIdMap = (\<lambda>_. None), lineNo = 0 \<rparr>"

definition top_id :: "container list \<Rightarrow> string option" where
  \<comment> \<open>\<^verbatim>\<open>(groupStack.length > 0 ? groupStack[groupStack.length - 1] : null)?.id || null\<close>\<close>
  "top_id stack =
     (if stack \<noteq> [] then (if cont_id (last stack) \<noteq> [] then Some (cont_id (last stack)) else None)
      else None)"

definition classify_group :: "string \<Rightarrow> string \<times> string \<times> string" where
  \<comment> \<open>\<^verbatim>\<open>containerType\<close>, \<^verbatim>\<open>borderStyle\<close>, \<^verbatim>\<open>color\<close>\<close>
  "classify_group groupName =
     (let n = toLowerCase groupName in
      if js_includes n ''vpc'' then (''vpc'', ''solid'', ''#FF6B6B'')
      else if js_includes n ''subnet'' then (''subnet'', ''dashed'', ''#94A3B8'')
      else if js_includes n ''aws'' \<or> js_includes n ''cloud'' then (''aws-cloud'', ''solid'', ''#FF9900'')
      else if js_includes n ''github'' then (''github'', ''solid'', ''#374151'')
      else if js_includes n ''on-premises'' \<or> js_includes n ''on premises''
        then (''on-premises'', ''solid'', ''#6B7280'')
      else if js_includes n ''data center'' \<or> js_includes n ''datacenter''
        then (''data-center'', ''solid'', ''#374151'')
      else if js_includes n ''corporate'' \<or> js_includes n ''corp''
        then (''corporate-network'', ''dashed'', ''#4B5563'')
      else if js_includes n ''rack'' then (''server-rack'', ''dotted'', ''#6B7280'')
      else if js_includes n ''network zone'' \<or> js_includes n ''zone''
        then (''network-zone'', ''dashed'', ''#9CA3AF'')
      else (''container'', ''solid'', ''#FF6B6B''))"

definition open_group :: "environment \<Rightarrow> string \<Rightarrow> string \<Rightarrow> string \<Rightarrow> parser \<Rightarrow> parser" where
  "open_group E groupId groupName iconName s =
     (let (containerType, borderStyle, color) = classify_group groupName;
          depth = int (length (groupStack s));
          newContainer =
            \<lparr> cont_id = ''container-'' @ show_nat (containerCounter s) @ ''-''
                          @ show_nat (Date_now E (lineNo s)),
              cont_name = groupName, cont_color = color, cont_borderStyle = Some borderStyle,
              cont_x = 100 + depth * 60, cont_y = 100 + depth * 60,
              cont_width = max (400 - depth * 40) 240,
              cont_height = max (320 - depth * 40) 180,
              cont_parentContainerId = top_id (groupStack s),
              cont_type = ''container'' \<rparr>
      in s \<lparr> p_containers := p_containers s @ [newContainer],
             groupStack := groupStack s @ [newContainer],
             containerCounter := Suc (containerCounter s),
             containerIdMap := (containerIdMap s)(groupId \<mapsto> newContainer) \<rparr>)"

definition add_item :: "environment \<Rightarrow> string \<Rightarrow> string \<Rightarrow> string \<Rightarrow> parser \<Rightarrow> parser" where
  "add_item E itemId itemName iconName s =
     (let serviceInfo = getServiceFromIcon E (trim iconName) itemName;
          uniqueId = si_id serviceInfo @ ''-'' @ show_nat (itemCounter s) @ ''-''
                       @ show_nat (Date_now E (lineNo s));
          itemCounter' = Suc (itemCounter s);
          depth = int (length (groupStack s));
          item =
            \<lparr> item_id = uniqueId, item_name = si_name serviceInfo,
              item_customName = (if itemName \<noteq> si_name serviceInfo then Some itemName else None),
              item_color = si_color serviceInfo, item_category = si_category serviceInfo,
              item_x = 180 + int (itemCounter' mod 4) * 100 + depth * 30,
              item_y = 180 + int (itemCounter' div 4) * 100 + depth * 30,
              item_parentContainerId = top_id (groupStack s),
              item_type = ''service'' \<rparr>
      in s \<lparr> p_items := p_items s @ [item],
             itemCounter := itemCounter',
             itemIdMap := (itemIdMap s)(itemId \<mapsto> item) \<rparr>)"

definition add_connection :: "environment \<Rightarrow> string \<Rightarrow> string \<Rightarrow> string option \<Rightarrow> parser \<Rightarrow> parser" where
  "add_connection E fromId toId label s =
     (case (itemIdMap s fromId, itemIdMap s toId) of
        (Some fromItem, Some toItem) \<Rightarrow>
          s \<lparr> p_connections := p_connections s @
                [\<lparr> conn_id = ''conn-'' @ show_nat (Date_now E (lineNo s)) @ ''-''
                               @ Math_random E (lineNo s),
                   conn_from = item_id fromItem, conn_to = item_id toItem,
                   conn_label = (if truthy_str label then label else Some []) \<rparr>] \<rparr>
      | _ \<Rightarrow> s)"

definition parse_line :: "environment \<Rightarrow> string \<Rightarrow> parser \<Rightarrow> parser" where
  \<comment> \<open>the body of the \<^verbatim>\<open>for\<close> loop\<close>
  "parse_line E line s =
     (if startsWith line ''//'' \<or> startsWith line ''direction'' then s
      else if js_includes line ''['' \<and> js_includes line ''icon:'' \<and> js_includes line ''{'' then
        (case match3 group_regex line of
           None \<Rightarrow> s
         | Some (groupId, groupName, iconName) \<Rightarrow> open_group E groupId groupName iconName s)
      else if line = ''}'' then
        (if groupStack s \<noteq> [] then s \<lparr> groupStack := butlast (groupStack s) \<rparr> else s)
      else if js_includes line ''[label:'' \<and> js_includes line ''icon:'' \<and> \<not> js_includes line ''{'' then
        (case match3 item_regex line of
           None \<Rightarrow> s
         | Some (itemId, itemName, iconName) \<Rightarrow> add_item E itemId itemName iconName s)
      else if js_includes line '' > '' then
        (case match2o connection_regex line of
           None \<Rightarrow> s
         | Some (fromId, toId, label) \<Rightarrow> add_connection E fromId toId label s)
      else s)"

definition parse_lines :: "environment \<Rightarrow> string list \<Rightarrow> parser \<Rightarrow> parser" where
  "parse_lines E ls s = fold (\<lambda>line s. (parse_line E line s) \<lparr> lineNo := Suc (lineNo s) \<rparr>) ls s"

definition parseEraserFormat ::
  "environment \<Rightarrow> string \<Rightarrow> boardItem list \<times> container list \<times> connection list" where
  "parseEraserFormat E mermaidText =
     (let lines = filter (\<lambda>line. length line > 0) (map trim (split_on (CHR 0x0A) mermaidText));
          s = parse_lines E lines initial_parser
      in (p_items s, p_containers s, p_connections s))"

subsection \<open>Invariants of the parser loop\<close>

text \<open>
  \<open>parser_inv\<close>: the open groups are groups of the result; a group's parent, when set, is
  the id of a group earlier in the result; a node's parent, when set, is the id of a group
  of the result; the node table holds nodes of the result; both ends of every edge are
  ids of nodes of the result. \<open>ids_inv\<close>: the group counter is the number of groups, and
  the group at position \<open>k\<close> has an id of the form \<^verbatim>\<open>container-k-t\<close>.
\<close>

definition parser_inv :: "parser \<Rightarrow> bool" where
  "parser_inv s =
     (set (groupStack s) \<subseteq> set (p_containers s) \<and>
      (\<forall>k < length (p_containers s).
         cont_parentContainerId (p_containers s ! k) = None \<or>
         (\<exists>j < k. cont_parentContainerId (p_containers s ! k)
                     = Some (cont_id (p_containers s ! j)))) \<and>
      (\<forall>i \<in> set (p_items s).
         item_parentContainerId i = None \<or>
         (\<exists>c \<in> set (p_containers s). item_parentContainerId i = Some (cont_id c))) \<and>
      (\<forall>k v. itemIdMap s k = Some v \<longrightarrow> v \<in> set (p_items s)) \<and>
      (\<forall>e \<in> set (p_connections s).
         conn_from e \<in> item_id ` set (p_items s) \<and> conn_to e \<in> item_id ` set (p_items s)))"

definition ids_inv :: "parser \<Rightarrow> bool" where
  "ids_inv s =
     (containerCounter s = length (p_containers s) \<and>
      (\<forall>k < length (p_containers s).
         \<exists>t. cont_id (p_containers s ! k) = ''container-'' @ show_nat k @ ''-'' @ show_nat t))"

text \<open>
  A line is an edge line when the loop body reaches the connection branch on it and the
  connection expression matches.
\<close>

definition edge_line :: "string \<Rightarrow> (string \<times> string \<times> string option) option" where
  "edge_line line =
     (if startsWith line ''//'' \<or> startsWith line ''direction'' then None
      else if js_includes line ''['' \<and> js_includes line ''icon:'' \<and> js_includes line ''{'' then None
      else if line = ''}'' then None
      else if js_includes line ''[label:'' \<and> js_includes line ''icon:'' \<and> \<not> js_includes line ''{''
        then None
      else if js_includes line '' > '' then match2o connection_regex line
      else None)"

subsection \<open>Sample inputs\<close>

text \<open>
  An environment with a few rows of the two tables, and two texts: the second example
  scenario of the specification, and a group nested in a group with one node and an edge
  line that names a group.
\<close>

definition sample_environment :: environment where
  "sample_environment =
     \<lparr> labelServiceMap = map_of
         [(''User'', \<lparr> si_id = ''user'', si_name = ''User'', si_color = ''#4F46E5'',
                       si_category = ''Actors'' \<rparr>),
          (''EC2'', \<lparr> si_id = ''ec2'', si_name = ''EC2'', si_color = ''#FF9900'',
                      si_category = ''Compute'' \<rparr>),
          (''RDS'', \<lparr> si_id = ''rds'', si_name = ''RDS'', si_color = ''#527FFF'',
                      si_category = ''Database'' \<rparr>)],
       iconMap = map_of
         [(''user'', \<lparr> si_id = ''user'', si_name = ''User'', si_color = ''#4F46E5'',
                       si_category = ''Actors'' \<rparr>),
          (''aws-ec2'', \<lparr> si_id = ''ec2'', si_name = ''EC2'', si_color = ''#FF9900'',
                          si_category = ''Compute'' \<rparr>),
          (''aws-rds'', \<lparr> si_id = ''rds'', si_name = ''RDS'', si_color = ''#527FFF'',
                          si_category = ''Database'' \<rparr>)],
       Date_now = (\<lambda>k. 40 + k),
       Math_random = (\<lambda>k. ''k3j9x2m1q'') \<rparr>"

definition two_nodes_one_edge :: string where
  \<open>two_nodes_one_edge =
     ''A [label: "Web", icon: aws-ec2]'' @ [CHR 0x0A] @
     ''B [label: "DB", icon: aws-rds]'' @ [CHR 0x0A] @
     ''A > B : "query"''\<close>

definition nested_groups :: string where
  \<open>nested_groups =
     ''vpc [label: "My VPC", icon: aws-vpc] {'' @ [CHR 0x0A] @
     ''  sub [label: "Public Subnet", icon: aws-vpc] {'' @ [CHR 0x0A] @
     ''    web [label: "EC2", icon: aws-ec2]'' @ [CHR 0x0A] @
     ''  }'' @ [CHR 0x0A] @
     ''}'' @ [CHR 0x0A] @
     ''vpc > web''\<close>

definition one_node :: string where
  \<open>one_node = ''A [label: "Web", icon: aws-ec2]''\<close>

section \<open>Emitters\<close>

text \<open>
  \<^verbatim>\<open>exportMermaidToClipboard\<close> builds the text \<^verbatim>\<open>mermaidCode\<close> by appending pieces. Here each
  piece is kept with a tag that says what it was emitted for; the text is the
  concatenation of the pieces (\<open>render\<close>). The two recursive functions of the source read
  the component's \<^verbatim>\<open>boardItems\<close> and \<^verbatim>\<open>containers\<close>, which are the arguments \<open>items\<close> and \<open>cs\<close> here. Their
  recursion need not end on every collection (with two groups of one id, one parented
  under that id, it does not), so it is bounded by fuel: \<open>None\<close> is a recursion that did
  not return within the bound.
\<close>

datatype tag =
    Header
  | Blank
  | Comment
  | NodeLine string      \<comment> \<open>the declaration of the node with this id\<close>
  | GroupOpen string     \<comment> \<open>the opening line of the group with this id\<close>
  | GroupClose string    \<comment> \<open>the closing line of the group with this id\<close>
  | EdgeLine string
  | StyleLine string

type_synonym piece = "tag \<times> string"


definition newline :: char where
  "newline = CHR 0x0A"

definition sanitize :: "string \<Rightarrow> string" where
  \<comment> \<open>\<^verbatim>\<open>.replace(/[^a-zA-Z0-9]/g, '_')\<close>\<close>
  "sanitize s =
     map (\<lambda>c. let n = (of_char c :: nat) in
            if (97 \<le> n \<and> n \<le> 122) \<or> (65 \<le> n \<and> n \<le> 90) \<or> (48 \<le> n \<and> n \<le> 57) then c
            else CHR ''_'') s"

definition repeat :: "string \<Rightarrow> nat \<Rightarrow> string" where
  "repeat s n = concat (replicate n s)"

definition getEraserIconName :: "(string \<Rightarrow> string option) \<Rightarrow> string \<Rightarrow> string" where
  \<comment> \<open>\<^verbatim>\<open>logoMap[serviceName] || 'aws-ec2'\<close>; the table \<^verbatim>\<open>logoMap\<close> is a parameter\<close>
  "getEraserIconName logoMap serviceName =
     (if truthy_str (logoMap serviceName) then (case logoMap serviceName of Some i \<Rightarrow> i | None \<Rightarrow> [])
      else ''aws-ec2'')"

definition nodeName :: "boardItem \<Rightarrow> string" where
  \<comment> \<open>\<^verbatim>\<open>item.customName || item.name\<close>\<close>
  "nodeName item =
     (if truthy_str (item_customName item)
      then (case item_customName item of Some n \<Rightarrow> n | None \<Rightarrow> []) else item_name item)"

definition eraser_node :: "(string \<Rightarrow> string option) \<Rightarrow> nat \<Rightarrow> boardItem \<Rightarrow> piece" where
  \<open>eraser_node logoMap depth item =
     (NodeLine (item_id item),
      repeat ''  '' depth @ sanitize (item_id item) @ '' [label: "'' @ nodeName item @ ''", icon: ''
        @ getEraserIconName logoMap (item_name item) @ '']'' @ [newline])\<close>


definition eraser_edge :: "connection \<Rightarrow> piece" where
  \<open>eraser_edge connection =
     (EdgeLine (conn_id connection),
      (if truthy_str (conn_label connection) \<and> truthy_str (map_option trim (conn_label connection))
       then sanitize (conn_from connection) @ '' > '' @ sanitize (conn_to connection) @ '' : "''
              @ (case conn_label connection of Some l \<Rightarrow> l | None \<Rightarrow> []) @ ''"'' @ [newline]
       else sanitize (conn_from connection) @ '' > '' @ sanitize (conn_to connection) @ [newline]))\<close>


definition flowchart_node :: "string \<Rightarrow> boardItem \<Rightarrow> piece" where
  \<open>flowchart_node indent item =
     (NodeLine (item_id item),
      indent @ sanitize (item_id item) @ ''["'' @ nodeName item @ ''"]'' @ [newline])\<close>


definition flowchart_edge :: "connection \<Rightarrow> piece" where
  \<open>flowchart_edge connection =
     (EdgeLine (conn_id connection),
      (if truthy_str (conn_label connection) \<and> truthy_str (map_option trim (conn_label connection))
       then ''    '' @ sanitize (conn_from connection) @ '' -->|"''
              @ (case conn_label connection of Some l \<Rightarrow> l | None \<Rightarrow> []) @ ''"| ''
              @ sanitize (conn_to connection) @ [newline]
       else ''    '' @ sanitize (conn_from connection) @ '' --> '' @ sanitize (conn_to connection)
              @ [newline]))\<close>

definition flowchart_style :: "boardItem \<Rightarrow> piece" where
  "flowchart_style item =
     (StyleLine (item_id item),
      ''    style '' @ sanitize (item_id item) @ '' fill:'' @ item_color item
        @ '',stroke:#333,stroke-width:2px,color:#fff'' @ [newline])"


subsection \<open>The traversal both emitters share\<close>

text \<open>
  \<open>block_tags\<close> is the sequence of group and node tags of one group's block: the opening,
  the group's own nodes, the blocks of its child groups in collection order, the closing.
  Both recursive emitters produce exactly these tags. \<open>well_formed\<close> collects the
  conditions under which the traversal reaches every group exactly once: group ids and
  node ids are unique and no group is its own ancestor, which are invariants of the graph
  model, and moreover no group id is empty and every parent reference of a group names a
  group.
\<close>

fun block_tags :: "nat \<Rightarrow> boardItem list \<Rightarrow> container list \<Rightarrow> string \<Rightarrow> tag list option" where
  "block_tags 0 items cs containerId = None"
| "block_tags (Suc fuel) items cs containerId =
     (case find (\<lambda>c. cont_id c = containerId) cs of
        None \<Rightarrow> Some []
      | Some container \<Rightarrow>
          (case those (map (\<lambda>child. block_tags fuel items cs (cont_id child))
                  (filter (\<lambda>c. cont_parentContainerId c = Some (cont_id container)) cs)) of
             None \<Rightarrow> None
           | Some blocks \<Rightarrow>
               Some (GroupOpen (cont_id container)
                     # map (\<lambda>item. NodeLine (item_id item))
                         (filter (\<lambda>item. item_parentContainerId item = Some (cont_id container))
                            items)
                     @ concat blocks
                     @ [GroupClose (cont_id container)])))"










subsection \<open>The emitted lines\<close>

text \<open>
  The lines of the output, as the two emitters format them, with the depth of indentation
  as an argument: the line that opens a group, the line that closes it and (with
  \<open>eraser_node\<close> above) the line that declares a node; then the sections that follow the
  groups, which hold the edges and, in the flowchart, one style directive for every node.
\<close>

definition eraser_open ::
  "(string \<Rightarrow> string option) \<Rightarrow> boardItem list \<Rightarrow> nat \<Rightarrow> container \<Rightarrow> piece" where
  \<open>eraser_open logoMap items depth container =
     (let itemsInContainer =
            filter (\<lambda>item. item_parentContainerId item = Some (cont_id container)) items;
          groupIcon =
            (if js_includes (toLowerCase (cont_name container)) ''aws'' \<or>
                js_includes (toLowerCase (cont_name container)) ''cloud'' then ''aws-cloud''
             else if js_includes (toLowerCase (cont_name container)) ''github'' then ''github''
             else if length itemsInContainer > 0
               then getEraserIconName logoMap (item_name (hd itemsInContainer))
             else ''aws-vpc'')
      in (GroupOpen (cont_id container),
          repeat ''  '' depth @ sanitize (cont_id container) @ '' [label: "''
            @ cont_name container @ ''", icon: '' @ groupIcon @ ''] {'' @ [newline]))\<close>

definition eraser_close :: "nat \<Rightarrow> container \<Rightarrow> piece" where
  "eraser_close depth container =
     (GroupClose (cont_id container), repeat ''  '' depth @ ''}'' @ [newline])"


definition flowchart_open :: "nat \<Rightarrow> container \<Rightarrow> piece" where
  \<open>flowchart_open depth container =
     (GroupOpen (cont_id container),
      [newline] @ repeat ''    '' depth @ ''subgraph '' @ sanitize (cont_id container) @ ''["''
        @ cont_name container @ ''"]'' @ [newline])\<close>

definition flowchart_close :: "nat \<Rightarrow> container \<Rightarrow> piece" where
  "flowchart_close depth container =
     (GroupClose (cont_id container), repeat ''    '' depth @ ''end'' @ [newline])"

definition flowchart_node_at :: "nat \<Rightarrow> boardItem \<Rightarrow> piece" where
  "flowchart_node_at depth item = flowchart_node (repeat ''    '' depth) item"


definition structural :: "tag \<Rightarrow> bool" where
  \<comment> \<open>the tags of the header, the node declarations and the groups\<close>
  "structural t =
     (case t of Comment \<Rightarrow> False | EdgeLine e \<Rightarrow> False | StyleLine s \<Rightarrow> False | _ \<Rightarrow> True)"








section \<open>Round trip of optimize and restore\<close>

lemma trim_empty [simp]: "trim [] = []"
  by (simp add: trim_def)

lemma restore_optimize_item: "restoreItem (optimizeItem i) = normItem i"
  by (cases "item_customName i"; cases "item_parentContainerId i")
     (auto simp: restoreItem_def optimizeItem_def normItem_def truthy_str_def)

lemma restore_optimize_container: "restoreContainer (optimizeContainer c) = normContainer c"
  by (cases "cont_borderStyle c"; cases "cont_parentContainerId c")
     (auto simp: restoreContainer_def optimizeContainer_def normContainer_def truthy_str_def)

lemma restore_optimize_connection: "restoreConnection (optimizeConnection e) = normConnection e"
  by (cases "conn_label e")
     (auto simp: restoreConnection_def optimizeConnection_def normConnection_def truthy_str_def)

lemma restore_optimize_settings:
  "settings (restoreDataFromOptimized (optimizeDataForCompression d)) = settings (code_normalize d)"
  by (cases "settings d"; cases "settings_zoomLevel (settings d)")
     (auto simp: restoreDataFromOptimized_def optimizeDataForCompression_def code_normalize_def
        truthy_num_def settings_zoomLevel_def)

lemma restore_optimize_normalize:
  "restoreDataFromOptimized (optimizeDataForCompression d) = code_normalize d"
proof -
  have "boardItems (restoreDataFromOptimized (optimizeDataForCompression d)) = boardItems (code_normalize d)"
    by (simp add: restoreDataFromOptimized_def optimizeDataForCompression_def code_normalize_def
          restore_optimize_item)
  moreover have "containers (restoreDataFromOptimized (optimizeDataForCompression d)) = containers (code_normalize d)"
    by (simp add: restoreDataFromOptimized_def optimizeDataForCompression_def code_normalize_def
          restore_optimize_container)
  moreover have "connections (restoreDataFromOptimized (optimizeDataForCompression d)) = connections (code_normalize d)"
    by (simp add: restoreDataFromOptimized_def optimizeDataForCompression_def code_normalize_def
          restore_optimize_connection)
  moreover have "version (restoreDataFromOptimized (optimizeDataForCompression d)) = version (code_normalize d)"
    "timestamp (restoreDataFromOptimized (optimizeDataForCompression d)) = timestamp (code_normalize d)"
    by (simp_all add: restoreDataFromOptimized_def optimizeDataForCompression_def code_normalize_def)
  ultimately show ?thesis
    using restore_optimize_settings [of d] by (intro ArchitectureData.equality) simp_all
qed

lemma plain_item: "item_customName i \<noteq> Some [] \<Longrightarrow> item_parentContainerId i \<noteq> Some []
    \<Longrightarrow> normItem i = spec_normItem i"
  by (simp add: normItem_def spec_normItem_def)

lemma plain_container: "cont_borderStyle c \<noteq> Some [] \<Longrightarrow> cont_parentContainerId c \<noteq> Some []
    \<Longrightarrow> normContainer c = spec_normContainer c"
  by (cases "cont_borderStyle c") (simp_all add: normContainer_def spec_normContainer_def)

lemma plain_connection:
  "(case conn_label e of None \<Rightarrow> True | Some l \<Rightarrow> l = [] \<or> trim l \<noteq> [])
    \<Longrightarrow> normConnection e = spec_normConnection e"
  by (cases "conn_label e") (auto simp: normConnection_def spec_normConnection_def)

lemma plain_normalize: "plain d \<Longrightarrow> code_normalize d = spec_normalize d"
proof -
  assume p: "plain d"
  have "map normItem (boardItems d) = map spec_normItem (boardItems d)"
    using p by (intro map_cong) (auto simp: plain_def list_all_iff plain_item)
  moreover have "map normContainer (containers d) = map spec_normContainer (containers d)"
    using p by (intro map_cong) (auto simp: plain_def list_all_iff plain_container)
  moreover have "map normConnection (connections d) = map spec_normConnection (connections d)"
    using p by (intro map_cong) (auto simp: plain_def list_all_iff plain_connection)
  moreover have "settings (code_normalize d) = settings (spec_normalize d)"
    using p by (cases "settings_zoomLevel (settings d)")
      (auto simp: plain_def code_normalize_def spec_normalize_def)
  ultimately show ?thesis
    by (intro ArchitectureData.equality) (simp_all add: code_normalize_def spec_normalize_def)
qed

lemma trim_space [simp]: "trim '' '' = []"
  by (simp add: trim_def isspace_def)

text \<open>
  Claim C1, as amended. For every diagram, restoring the optimized form gives the diagram
  after default normalization, where the normalization treats a present but falsy value as
  absent (an override that is empty or equal to the base name is no override, an empty
  parent id is null, an absent or empty border style is \<^verbatim>\<open>solid\<close>, an absent label or one
  that is blank after trimming is the empty label, an absent or zero zoom level is 100).
  On plain diagrams this is the normalization of the specification.
\<close>

theorem restore_optimize_roundtrip:
  "restoreDataFromOptimized (optimizeDataForCompression d) = code_normalize d \<and>
   (plain d \<longrightarrow> restoreDataFromOptimized (optimizeDataForCompression d) = spec_normalize d)"
  using restore_optimize_normalize [of d] plain_normalize [of d] by simp

theorem restore_optimize_roundtrip_witness:
  "plain sampleData \<and>
   restoreDataFromOptimized (optimizeDataForCompression sampleData) = code_normalize sampleData \<and>
   restoreDataFromOptimized (optimizeDataForCompression sampleData) = spec_normalize sampleData \<and>
   spec_normalize sampleData = sampleData"
proof -
  have p: "plain sampleData"
    by (simp add: plain_def sampleData_def settings_zoomLevel_def trim_def isspace_def)
  have "spec_normalize sampleData = sampleData"
    by (simp add: sampleData_def spec_normalize_def spec_normItem_def spec_normContainer_def
          spec_normConnection_def settings_zoomLevel_def)
  with p restore_optimize_roundtrip [of sampleData] show ?thesis by auto
qed

text \<open>
  Claim C1, as stated, fails on an edge whose label is one space: optimize drops the label
  (its trimmed form is empty), restore puts the empty label back, and the stated
  normalization keeps the space.
\<close>

theorem restore_optimize_blank_label_counterexample:
  "restoreDataFromOptimized (optimizeDataForCompression blank_label_diagram)
     \<noteq> spec_normalize blank_label_diagram"
  by (simp add: blank_label_diagram_def restoreDataFromOptimized_def
        optimizeDataForCompression_def spec_normalize_def optimizeConnection_def
        restoreConnection_def spec_normConnection_def truthy_str_def)

text \<open>
  Claim C10. Optimize leaves the settings out exactly when the zoom level is absent, 0 or
  100; restore turns an absent or zero zoom level into 100; so a diagram whose zoom level
  is 0 comes back with zoom level 100.
\<close>

theorem zoomLevel_falsy_dropped:
  "(settings (optimizeDataForCompression d) = None \<longleftrightarrow>
      settings_zoomLevel (settings d) = None \<or> settings_zoomLevel (settings d) = Some 0 \<or>
      settings_zoomLevel (settings d) = Some 100) \<and>
   (settings_zoomLevel (settings d) = None \<or> settings_zoomLevel (settings d) = Some 0 \<longrightarrow>
      settings (restoreDataFromOptimized d) = Some \<lparr> zoomLevel = Some 100 \<rparr>) \<and>
   (settings_zoomLevel (settings d) = Some 0 \<longrightarrow>
      settings (restoreDataFromOptimized (optimizeDataForCompression d))
        = Some \<lparr> zoomLevel = Some 100 \<rparr>)"
  by (cases "settings_zoomLevel (settings d)")
     (auto simp: optimizeDataForCompression_def restoreDataFromOptimized_def truthy_num_def
        settings_zoomLevel_def)

theorem zoomLevel_falsy_dropped_witness:
  "settings_zoomLevel (settings zero_zoom_diagram) = Some 0 \<and>
   settings (optimizeDataForCompression zero_zoom_diagram) = None \<and>
   settings (restoreDataFromOptimized (optimizeDataForCompression zero_zoom_diagram))
     = Some \<lparr> zoomLevel = Some 100 \<rparr> \<and>
   settings (restoreDataFromOptimized (optimizeDataForCompression zero_zoom_diagram))
     \<noteq> settings zero_zoom_diagram"
proof -
  have z: "settings_zoomLevel (settings zero_zoom_diagram) = Some 0"
    by (simp add: zero_zoom_diagram_def settings_zoomLevel_def)
  have s: "settings zero_zoom_diagram = Some \<lparr> zoomLevel = Some 0 \<rparr>"
    by (simp add: zero_zoom_diagram_def)
  from z s zoomLevel_falsy_dropped [of zero_zoom_diagram] show ?thesis by simp
qed

section \<open>Compress and decompress\<close>

lemma base64_fallback_never_raises: "\<exists>r. base64_fallback R s fb = Inr r"
  by (simp add: base64_fallback_def try_catch_def split: sum.splits)


lemma optimize_call_js_of: "optimize_call (js_of d) = Inr (optimizeDataForCompression d)"
  by (simp add: optimize_call_def js_of_def optimizeDataForCompression_def)


lemma compressData_Some:
  "compressData R (Some d) =
     (case optimize_call d of
        Inl e \<Rightarrow> Inl Error_compressing
      | Inr optimizedData \<Rightarrow>
          (case JSON_stringify R optimizedData of
             Inl e \<Rightarrow> Inl Error_compressing
           | Inr jsonString \<Rightarrow>
               (case compressToEncodedURIComponent R jsonString of
                  Inl e \<Rightarrow> Inl Error_compressing
                | Inr compressed \<Rightarrow>
                    if compressed = [] then Inl Error_compressing else Inr compressed)))"
  by (simp add: compressData_def try_catch_def split: sum.splits)

lemma toy_stringify_blank:
  "JSON_stringify toy_runtime (optimizeDataForCompression blank_label_diagram) = Inr ''{blank}''"
  by (simp add: toy_runtime_def optimizeDataForCompression_def blank_label_diagram_def
        sampleData_def)

text \<open>
  Claim C2, as amended. When the compressor and decompressor are inverse on the serialized
  text, and the JSON printer and parser are inverse on the optimized diagram, compressing
  a diagram and decompressing the result without the legacy fallback returns
  \<open>restore (optimize d)\<close>: the diagram after the normalization that the optimize/restore
  round trip performs, in which a present but falsy value counts as absent and a label
  that is blank after trimming is the empty label. On plain diagrams this is the
  normalization of the specification.
  The serialized text is not empty and the compressed text is not blank (the compressor
  writes URL-safe characters only).
\<close>

theorem compress_decompress_roundtrip:
  assumes "JSON_stringify R (optimizeDataForCompression d) = Inr json"
    and "compressToEncodedURIComponent R json = Inr c"
    and "decompressFromEncodedURIComponent R c = Inr (Some json)"
    and "JSON_parse R json = Inr (optimizeDataForCompression d)"
    and "json \<noteq> []" and "trim c \<noteq> []"
  shows "compressData R (Some (js_of d)) = Inr c \<and>
         decompressData R c False
           = Inr (Some (restoreDataFromOptimized (optimizeDataForCompression d))) \<and>
         decompressData R c False = Inr (Some (code_normalize d)) \<and>
         (plain d \<longrightarrow> decompressData R c False = Inr (Some (spec_normalize d)))"
proof -
  from assms(6) have "c \<noteq> []" by auto
  with assms(1,2) have "compressData R (Some (js_of d)) = Inr c"
    by (simp add: compressData_Some optimize_call_js_of)
  moreover from assms(3-6) \<open>c \<noteq> []\<close>
  have "decompressData R c False
          = Inr (Some (restoreDataFromOptimized (optimizeDataForCompression d)))"
    by (simp add: decompressData_def try_catch_def parse_and_restore_def)
  ultimately show ?thesis
    using plain_normalize [of d] by (simp add: restore_optimize_normalize)
qed

theorem compress_decompress_roundtrip_witness:
  "plain sampleData \<and>
   compressData toy_runtime (Some (js_of sampleData)) = Inr ''N{sample}'' \<and>
   decompressData toy_runtime ''N{sample}'' False
     = Inr (Some (restoreDataFromOptimized (optimizeDataForCompression sampleData))) \<and>
   decompressData toy_runtime ''N{sample}'' False = Inr (Some (code_normalize sampleData)) \<and>
   decompressData toy_runtime ''N{sample}'' False = Inr (Some (spec_normalize sampleData))"
proof -
  have 1: "JSON_stringify toy_runtime (optimizeDataForCompression sampleData) = Inr ''{sample}''"
    by (simp add: toy_runtime_def)
  have 2: "compressToEncodedURIComponent toy_runtime ''{sample}'' = Inr ''N{sample}''"
    by (simp add: toy_runtime_def)
  have 3: "decompressFromEncodedURIComponent toy_runtime ''N{sample}'' = Inr (Some ''{sample}'')"
    by (simp add: toy_runtime_def)
  have 4: "JSON_parse toy_runtime ''{sample}'' = Inr (optimizeDataForCompression sampleData)"
    by (simp add: toy_runtime_def)
  have 5: "''{sample}'' \<noteq> []" by simp
  have 6: "trim ''N{sample}'' \<noteq> []" by (simp add: trim_def isspace_def)
  have p: "plain sampleData"
    by (simp add: plain_def sampleData_def settings_zoomLevel_def trim_def isspace_def)
  from compress_decompress_roundtrip [OF 1 2 3 4 5 6] p show ?thesis by blast
qed

text \<open>
  Claim C2, as stated, fails on the diagram whose one edge is labelled with a single
  space. The stand-in compressor and decompressor are inverse on its serialized text and
  the JSON pair is inverse on its optimized form, compression succeeds, and decompression
  without the fallback returns a diagram in which the label is empty, whereas the
  normalization of the specification keeps the space.
\<close>

theorem compress_decompress_blank_label_counterexample:
  "JSON_stringify toy_runtime (optimizeDataForCompression blank_label_diagram) = Inr ''{blank}'' \<and>
   compressToEncodedURIComponent toy_runtime ''{blank}'' = Inr ''N{blank}'' \<and>
   decompressFromEncodedURIComponent toy_runtime ''N{blank}'' = Inr (Some ''{blank}'') \<and>
   JSON_parse toy_runtime ''{blank}'' = Inr (optimizeDataForCompression blank_label_diagram) \<and>
   compressData toy_runtime (Some (js_of blank_label_diagram)) = Inr ''N{blank}'' \<and>
   map conn_label (connections (spec_normalize blank_label_diagram)) = [Some '' ''] \<and>
   (\<exists>r. decompressData toy_runtime ''N{blank}'' False = Inr (Some r) \<and>
        map conn_label (connections r) = [Some []]) \<and>
   decompressData toy_runtime ''N{blank}'' False
     \<noteq> Inr (Some (spec_normalize blank_label_diagram))"
proof -
  have 2: "compressToEncodedURIComponent toy_runtime ''{blank}'' = Inr ''N{blank}''"
    by (simp add: toy_runtime_def)
  have 3: "decompressFromEncodedURIComponent toy_runtime ''N{blank}'' = Inr (Some ''{blank}'')"
    by (simp add: toy_runtime_def)
  have 4: "JSON_parse toy_runtime ''{blank}'' = Inr (optimizeDataForCompression blank_label_diagram)"
    by (simp add: toy_runtime_def)
  have 5: "compressData toy_runtime (Some (js_of blank_label_diagram)) = Inr ''N{blank}''"
    by (simp add: compressData_Some optimize_call_js_of toy_stringify_blank 2)
  have 6: "map conn_label (connections (spec_normalize blank_label_diagram)) = [Some '' '']"
    by (simp add: spec_normalize_def blank_label_diagram_def spec_normConnection_def)
  have 7: "decompressData toy_runtime ''N{blank}'' False
             = Inr (Some (restoreDataFromOptimized (optimizeDataForCompression blank_label_diagram)))"
    by (simp add: decompressData_def try_catch_def parse_and_restore_def 3 4 trim_def
          isspace_def)
  have 8: "map conn_label (connections
             (restoreDataFromOptimized (optimizeDataForCompression blank_label_diagram)))
           = [Some []]"
    by (simp add: blank_label_diagram_def restoreDataFromOptimized_def
          optimizeDataForCompression_def optimizeConnection_def restoreConnection_def
          truthy_str_def)
  from 6 8 have 9: "restoreDataFromOptimized (optimizeDataForCompression blank_label_diagram)
                      \<noteq> spec_normalize blank_label_diagram"
    by auto
  from toy_stringify_blank 2 3 4 5 6 7 8 9 show ?thesis by simp
qed




section \<open>Parent inference\<close>

lemma sort_key_head:
  "sort_key f xs = m # rest \<Longrightarrow>
     \<exists>pre post. xs = pre @ m # post \<and> (\<forall>y\<in>set pre. f m < f y) \<and> (\<forall>y\<in>set post. f m \<le> f y)"
proof (induction xs arbitrary: m rest)
  case Nil
  then show ?case by simp
next
  case step: (Cons a xs)
  show ?case
  proof (cases "sort_key f xs")
    case Nil
    then have "xs = []" by (metis length_sort length_0_conv)
    with step.prems have "a = m" by simp
    with \<open>xs = []\<close> show ?thesis by (intro exI[of _ "[]"]) simp
  next
    case (Cons m' rest')
    from step.IH[OF this] obtain pre post where
      d: "xs = pre @ m' # post" "\<forall>y\<in>set pre. f m' < f y" "\<forall>y\<in>set post. f m' \<le> f y" by blast
    show ?thesis
    proof (cases "f a \<le> f m'")
      case True
      with Cons step.prems have "m = a" by simp
      from d have "\<forall>y\<in>set xs. f m' \<le> f y" by (auto simp: less_imp_le)
      with True have "\<forall>y\<in>set xs. f a \<le> f y" using order_trans by blast
      with \<open>m = a\<close> show ?thesis
        by (intro exI[of _ "[]"] exI[of _ xs]) simp
    next
      case False
      with Cons step.prems have "m = m'" by simp
      with False have "f m < f a" by simp
      with d \<open>m = m'\<close> show ?thesis
        by (intro exI[of _ "a # pre"] exI[of _ post]) simp
    qed
  qed
qed

lemma filter_decomp:
  "filter P xs = ys @ p # zs \<Longrightarrow>
     \<exists>pre post. xs = pre @ p # post \<and> filter P pre = ys \<and> filter P post = zs \<and> P p"
proof (induction xs arbitrary: ys)
  case Nil
  then show ?case by simp
next
  case step: (Cons a xs)
  show ?case
  proof (cases "P a")
    case False
    with step.prems have "filter P xs = ys @ p # zs" by simp
    from step.IH[OF this] obtain pre post where
      "xs = pre @ p # post" "filter P pre = ys" "filter P post = zs" "P p" by blast
    with False show ?thesis by (intro exI[of _ "a # pre"] exI[of _ post]) simp
  next
    case True
    show ?thesis
    proof (cases ys)
      case Nil
      with True step.prems have "a = p" "filter P xs = zs" by simp_all
      with True Nil show ?thesis by (intro exI[of _ "[]"] exI[of _ xs]) simp
    next
      case (Cons b ys')
      with True step.prems have "a = b" "filter P xs = ys' @ p # zs" by simp_all
      from step.IH[OF this(2)] obtain pre post where
        "xs = pre @ p # post" "filter P pre = ys'" "filter P post = zs" "P p" by blast
      with True Cons \<open>a = b\<close> show ?thesis by (intro exI[of _ "a # pre"] exI[of _ post]) simp
    qed
  qed
qed

lemma sort_key_Nil_iff: "sort_key f xs = [] \<longleftrightarrow> xs = []"
  by (metis length_sort length_0_conv)

lemma findParent_None:
  "findParentContainer cs x y w h ex = None \<longleftrightarrow>
     \<not> (\<exists>c\<in>set cs. Some (cont_id c) \<noteq> ex \<and> isItemInContainer x y w h c)"
proof -
  let ?P = "\<lambda>c. Some (cont_id c) \<noteq> ex \<and> isItemInContainer x y w h c"
  have "findParentContainer cs x y w h ex = None \<longleftrightarrow> sort_key area (filter ?P cs) = []"
    by (simp add: findParentContainer_def split: list.splits)
  also have "\<dots> \<longleftrightarrow> filter ?P cs = []" by (rule sort_key_Nil_iff)
  also have "\<dots> \<longleftrightarrow> \<not> (\<exists>c\<in>set cs. ?P c)" by (simp add: filter_empty_conv)
  finally show ?thesis .
qed

lemma findParent_Some:
  assumes "findParentContainer cs x y w h ex = Some p"
  shows "\<exists>pre post. cs = pre @ p # post \<and>
           Some (cont_id p) \<noteq> ex \<and> isItemInContainer x y w h p \<and>
           (\<forall>c\<in>set pre. Some (cont_id c) \<noteq> ex \<and> isItemInContainer x y w h c \<longrightarrow> area p < area c) \<and>
           (\<forall>c\<in>set post. Some (cont_id c) \<noteq> ex \<and> isItemInContainer x y w h c \<longrightarrow> area p \<le> area c)"
proof -
  let ?P = "\<lambda>c. Some (cont_id c) \<noteq> ex \<and> isItemInContainer x y w h c"
  from assms obtain rest where "sort_key area (filter ?P cs) = p # rest"
    by (simp add: findParentContainer_def split: list.splits)
  from sort_key_head[OF this] obtain ys zs where
    f: "filter ?P cs = ys @ p # zs" "\<forall>c\<in>set ys. area p < area c" "\<forall>c\<in>set zs. area p \<le> area c"
    by blast
  from filter_decomp[OF f(1)] obtain pre post where
    d: "cs = pre @ p # post" "filter ?P pre = ys" "filter ?P post = zs" "?P p" by blast
  from f(2) d(2) have "\<forall>c\<in>set pre. ?P c \<longrightarrow> area p < area c" by auto
  moreover from f(3) d(3) have "\<forall>c\<in>set post. ?P c \<longrightarrow> area p \<le> area c" by auto
  ultimately show ?thesis using d(1,4) by blast
qed


text \<open>
  Claim C5. \<^verbatim>\<open>findParentContainer\<close> returns null exactly when no group other than the excluded
  one contains the rectangle. Otherwise it returns a group of the collection that is not
  the excluded one and contains the rectangle (four non-strict inequalities), such that
  every containing group before it in the collection has a strictly larger area and every
  containing group after it has an area at least as large: the smallest area, ties going
  to the earlier group. When exactly two groups contain the rectangle, the one of smaller
  area is returned.
\<close>

theorem findParentContainer_smallest:
  "(findParentContainer cs x y w h ex = None \<longleftrightarrow>
      \<not> (\<exists>c\<in>set cs. Some (cont_id c) \<noteq> ex \<and> isItemInContainer x y w h c)) \<and>
   (\<forall>p. findParentContainer cs x y w h ex = Some p \<longrightarrow>
      Some (cont_id p) \<noteq> ex \<and>
      cont_x p \<le> x \<and> cont_y p \<le> y \<and>
      x + w \<le> cont_x p + cont_width p \<and> y + h \<le> cont_y p + cont_height p \<and>
      (\<exists>pre post. cs = pre @ p # post \<and>
         (\<forall>c\<in>set pre. Some (cont_id c) \<noteq> ex \<and> isItemInContainer x y w h c
            \<longrightarrow> cont_width p * cont_height p < cont_width c * cont_height c) \<and>
         (\<forall>c\<in>set post. Some (cont_id c) \<noteq> ex \<and> isItemInContainer x y w h c
            \<longrightarrow> cont_width p * cont_height p \<le> cont_width c * cont_height c))) \<and>
   (\<forall>g1 g2. g1 \<in> set cs \<and> g2 \<in> set cs \<and>
      Some (cont_id g1) \<noteq> ex \<and> isItemInContainer x y w h g1 \<and>
      Some (cont_id g2) \<noteq> ex \<and> isItemInContainer x y w h g2 \<and>
      (\<forall>c\<in>set cs. Some (cont_id c) \<noteq> ex \<and> isItemInContainer x y w h c \<longrightarrow> c = g1 \<or> c = g2) \<and>
      cont_width g1 * cont_height g1 < cont_width g2 * cont_height g2
      \<longrightarrow> findParentContainer cs x y w h ex = Some g1)"
proof (intro conjI allI impI)
  show "findParentContainer cs x y w h ex = None \<longleftrightarrow>
      \<not> (\<exists>c\<in>set cs. Some (cont_id c) \<noteq> ex \<and> isItemInContainer x y w h c)"
    by (rule findParent_None)
next
  fix p assume r: "findParentContainer cs x y w h ex = Some p"
  from findParent_Some[OF r] obtain pre post where
    d: "cs = pre @ p # post" "Some (cont_id p) \<noteq> ex" "isItemInContainer x y w h p"
       "\<forall>c\<in>set pre. Some (cont_id c) \<noteq> ex \<and> isItemInContainer x y w h c \<longrightarrow> area p < area c"
       "\<forall>c\<in>set post. Some (cont_id c) \<noteq> ex \<and> isItemInContainer x y w h c \<longrightarrow> area p \<le> area c"
    by blast
  from d(2) show "Some (cont_id p) \<noteq> ex" .
  from d(3) show "cont_x p \<le> x" "cont_y p \<le> y" "x + w \<le> cont_x p + cont_width p"
    "y + h \<le> cont_y p + cont_height p"
    by (simp_all add: isItemInContainer_def)
  from d(1,4,5) show "\<exists>pre post. cs = pre @ p # post \<and>
         (\<forall>c\<in>set pre. Some (cont_id c) \<noteq> ex \<and> isItemInContainer x y w h c
            \<longrightarrow> cont_width p * cont_height p < cont_width c * cont_height c) \<and>
         (\<forall>c\<in>set post. Some (cont_id c) \<noteq> ex \<and> isItemInContainer x y w h c
            \<longrightarrow> cont_width p * cont_height p \<le> cont_width c * cont_height c)"
    unfolding area_def by blast
next
  fix g1 g2
  assume a: "g1 \<in> set cs \<and> g2 \<in> set cs \<and>
      Some (cont_id g1) \<noteq> ex \<and> isItemInContainer x y w h g1 \<and>
      Some (cont_id g2) \<noteq> ex \<and> isItemInContainer x y w h g2 \<and>
      (\<forall>c\<in>set cs. Some (cont_id c) \<noteq> ex \<and> isItemInContainer x y w h c \<longrightarrow> c = g1 \<or> c = g2) \<and>
      cont_width g1 * cont_height g1 < cont_width g2 * cont_height g2"
  then have "findParentContainer cs x y w h ex \<noteq> None"
    using findParent_None by blast
  then obtain p where r: "findParentContainer cs x y w h ex = Some p" by auto
  from findParent_Some[OF r] obtain pre post where
    d: "cs = pre @ p # post" "Some (cont_id p) \<noteq> ex" "isItemInContainer x y w h p"
       "\<forall>c\<in>set pre. Some (cont_id c) \<noteq> ex \<and> isItemInContainer x y w h c \<longrightarrow> area p < area c"
       "\<forall>c\<in>set post. Some (cont_id c) \<noteq> ex \<and> isItemInContainer x y w h c \<longrightarrow> area p \<le> area c"
    by blast
  from d(1) have "p \<in> set cs" by simp
  with a d(2,3) have pg: "p = g1 \<or> p = g2" by blast
  from a d(1) have "g1 = p \<or> g1 \<in> set pre \<or> g1 \<in> set post" by auto
  with a d(4,5) have "area p \<le> area g1" by force
  with a have "p \<noteq> g2" by (auto simp: area_def)
  with pg r show "findParentContainer cs x y w h ex = Some g1" by simp
qed

theorem findParentContainer_smallest_witness:
  "findParentContainer overlapping_groups 60 60 80 80 None
     = Some (group_at ''inner'' 50 50 200 100 (Some ''outer'')) \<and>
   findParentContainer overlapping_groups 60 60 80 80 (Some ''twin'')
     = Some (group_at ''inner'' 50 50 200 100 (Some ''outer'')) \<and>
   findParentContainer overlapping_groups 60 60 80 80 (Some ''inner'')
     = Some (group_at ''twin'' 40 40 100 200 (Some ''outer'')) \<and>
   findParentContainer overlapping_groups 0 0 500 10 None = None"
proof -
  let ?inner = "group_at ''inner'' 50 50 200 100 (Some ''outer'')"
  let ?outer = "group_at ''outer'' 0 0 400 300 None"
  have 1: "findParentContainer overlapping_groups 60 60 80 80 None = Some ?inner"
    by (simp add: findParentContainer_def overlapping_groups_def group_at_def
          isItemInContainer_def area_def)
  have "?inner \<in> set overlapping_groups \<and> ?outer \<in> set overlapping_groups \<and>
      Some (cont_id ?inner) \<noteq> Some ''twin'' \<and> isItemInContainer 60 60 80 80 ?inner \<and>
      Some (cont_id ?outer) \<noteq> Some ''twin'' \<and> isItemInContainer 60 60 80 80 ?outer \<and>
      (\<forall>c\<in>set overlapping_groups.
          Some (cont_id c) \<noteq> Some ''twin'' \<and> isItemInContainer 60 60 80 80 c
          \<longrightarrow> c = ?inner \<or> c = ?outer) \<and>
      cont_width ?inner * cont_height ?inner < cont_width ?outer * cont_height ?outer"
    by (simp add: overlapping_groups_def group_at_def isItemInContainer_def)
  then have 2: "findParentContainer overlapping_groups 60 60 80 80 (Some ''twin'') = Some ?inner"
    by (rule findParentContainer_smallest [THEN conjunct2, THEN conjunct2, rule_format])
  have 3: "findParentContainer overlapping_groups 60 60 80 80 (Some ''inner'')
     = Some (group_at ''twin'' 40 40 100 200 (Some ''outer''))"
    by (simp add: findParentContainer_def overlapping_groups_def group_at_def
          isItemInContainer_def area_def)
  have 4: "findParentContainer overlapping_groups 0 0 500 10 None = None"
    using findParentContainer_smallest [THEN conjunct1, of overlapping_groups 0 0 500 10 None]
    by (simp add: overlapping_groups_def group_at_def isItemInContainer_def)
  from 1 2 3 4 show ?thesis by (intro conjI)
qed

section \<open>Cycle check\<close>



lemma parent_of_SomeD:
  "parent_of cs p = Some q \<Longrightarrow> \<exists>c\<in>set cs. cont_id c = p \<and> cont_parentContainerId c = Some q"
proof -
  assume a: "parent_of cs p = Some q"
  then obtain c where f: "find (\<lambda>c. cont_id c = p) cs = Some c" and q: "cont_parentContainerId c = Some q"
    by (auto simp: parent_of_def split: option.splits)
  from f obtain i where "i < length cs" "cont_id (cs ! i) = p" "c = cs ! i"
    by (auto simp: find_Some_iff)
  with q show ?thesis by (intro bexI[of _ c]) auto
qed












section \<open>Parser invariants\<close>

lemma parser_inv_initial: "parser_inv initial_parser"
  by (simp add: parser_inv_def initial_parser_def)

lemma parser_inv_lineNo [simp]: "parser_inv (s \<lparr> lineNo := n \<rparr>) = parser_inv s"
  by (simp add: parser_inv_def)

lemma top_id_cases:
  "top_id stack = None \<or> (stack \<noteq> [] \<and> top_id stack = Some (cont_id (last stack)))"
  by (simp add: top_id_def)

lemma top_id_in:
  assumes "set stack \<subseteq> set cs"
  shows "top_id stack = None \<or> (\<exists>j < length cs. top_id stack = Some (cont_id (cs ! j)))"
proof -
  from top_id_cases [of stack] show ?thesis
  proof
    assume "stack \<noteq> [] \<and> top_id stack = Some (cont_id (last stack))"
    moreover then have "last stack \<in> set cs" using assms by auto
    then obtain j where "j < length cs" "cs ! j = last stack" by (auto simp: in_set_conv_nth)
    ultimately show ?thesis by auto
  qed simp
qed

lemma parser_inv_open_group:
  assumes "parser_inv s"
  shows "parser_inv (open_group E groupId groupName iconName s)"
proof -
  obtain ct bs col where cl: "classify_group groupName = (ct, bs, col)"
    by (cases "classify_group groupName") auto
  define c where "c = \<lparr> cont_id = ''container-'' @ show_nat (containerCounter s) @ ''-''
                          @ show_nat (Date_now E (lineNo s)),
              cont_name = groupName, cont_color = col, cont_borderStyle = Some bs,
              cont_x = 100 + int (length (groupStack s)) * 60, cont_y = 100 + int (length (groupStack s)) * 60,
              cont_width = max (400 - int (length (groupStack s)) * 40) 240,
              cont_height = max (320 - int (length (groupStack s)) * 40) 180,
              cont_parentContainerId = top_id (groupStack s),
              cont_type = ''container'' \<rparr>"
  have og: "open_group E groupId groupName iconName s =
      s \<lparr> p_containers := p_containers s @ [c], groupStack := groupStack s @ [c],
          containerCounter := Suc (containerCounter s),
          containerIdMap := (containerIdMap s)(groupId \<mapsto> c) \<rparr>"
    by (simp add: open_group_def cl c_def Let_def)
  have pc: "cont_parentContainerId c = top_id (groupStack s)" by (simp add: c_def)
  from assms have sub: "set (groupStack s) \<subseteq> set (p_containers s)" by (simp add: parser_inv_def)
  have new: "cont_parentContainerId c = None \<or>
      (\<exists>j < length (p_containers s). cont_parentContainerId c = Some (cont_id (p_containers s ! j)))"
    using top_id_in [OF sub] pc by simp
  have par: "cont_parentContainerId ((p_containers s @ [c]) ! k) = None \<or>
         (\<exists>j < k. cont_parentContainerId ((p_containers s @ [c]) ! k)
                     = Some (cont_id ((p_containers s @ [c]) ! j)))"
    if "k < Suc (length (p_containers s))" for k
  proof (cases "k < length (p_containers s)")
    case True
    then have e: "(p_containers s @ [c]) ! k = p_containers s ! k" by (simp add: nth_append)
    from True assms have "cont_parentContainerId (p_containers s ! k) = None \<or>
         (\<exists>j < k. cont_parentContainerId (p_containers s ! k) = Some (cont_id (p_containers s ! j)))"
      by (simp add: parser_inv_def)
    then show ?thesis
    proof
      assume "cont_parentContainerId (p_containers s ! k) = None"
      with e show ?thesis by simp
    next
      assume "\<exists>j < k. cont_parentContainerId (p_containers s ! k) = Some (cont_id (p_containers s ! j))"
      then obtain j where j: "j < k"
        "cont_parentContainerId (p_containers s ! k) = Some (cont_id (p_containers s ! j))" by blast
      from j(1) True have "(p_containers s @ [c]) ! j = p_containers s ! j" by (simp add: nth_append)
      with j e have "j < k \<and> cont_parentContainerId ((p_containers s @ [c]) ! k)
           = Some (cont_id ((p_containers s @ [c]) ! j))" by simp
      then show ?thesis by blast
    qed
  next
    case False
    with that have k: "k = length (p_containers s)" by simp
    then have e: "(p_containers s @ [c]) ! k = c" by simp
    from new show ?thesis
    proof
      assume "cont_parentContainerId c = None"
      with e show ?thesis by simp
    next
      assume "\<exists>j < length (p_containers s). cont_parentContainerId c = Some (cont_id (p_containers s ! j))"
      then obtain j where j: "j < length (p_containers s)"
        "cont_parentContainerId c = Some (cont_id (p_containers s ! j))" by blast
      from j(1) have "(p_containers s @ [c]) ! j = p_containers s ! j" by (simp add: nth_append)
      with j e k have "j < k \<and> cont_parentContainerId ((p_containers s @ [c]) ! k)
           = Some (cont_id ((p_containers s @ [c]) ! j))" by simp
      then show ?thesis by blast
    qed
  qed
  from assms have items: "\<forall>i \<in> set (p_items s).
         item_parentContainerId i = None \<or>
         (\<exists>c \<in> set (p_containers s). item_parentContainerId i = Some (cont_id c))"
    by (simp add: parser_inv_def)
  from assms have rest: "(\<forall>k v. itemIdMap s k = Some v \<longrightarrow> v \<in> set (p_items s))"
     "(\<forall>e \<in> set (p_connections s).
         conn_from e \<in> item_id ` set (p_items s) \<and> conn_to e \<in> item_id ` set (p_items s))"
    by (simp_all add: parser_inv_def)
  have 1: "set (groupStack s @ [c]) \<subseteq> set (p_containers s @ [c])"
    using sub by auto
  have 2: "\<forall>k < length (p_containers s @ [c]).
         cont_parentContainerId ((p_containers s @ [c]) ! k) = None \<or>
         (\<exists>j < k. cont_parentContainerId ((p_containers s @ [c]) ! k)
                     = Some (cont_id ((p_containers s @ [c]) ! j)))"
    using par by simp
  have 3: "\<forall>i \<in> set (p_items s).
         item_parentContainerId i = None \<or>
         (\<exists>c \<in> set (p_containers s @ [c]). item_parentContainerId i = Some (cont_id c))"
    using items by fastforce
  from 1 2 3 rest show ?thesis
    unfolding og parser_inv_def by simp
qed


lemma parser_inv_pop:
  assumes "parser_inv s"
  shows "parser_inv (s \<lparr> groupStack := butlast (groupStack s) \<rparr>)"
proof -
  from assms have "set (groupStack s) \<subseteq> set (p_containers s)" by (simp add: parser_inv_def)
  then have "set (butlast (groupStack s)) \<subseteq> set (p_containers s)"
    using in_set_butlastD by fastforce
  with assms show ?thesis by (simp add: parser_inv_def)
qed

lemma parser_inv_add_item:
  assumes "parser_inv s"
  shows "parser_inv (add_item E itemId itemName iconName s)"
proof -
  obtain item where ai: "add_item E itemId itemName iconName s =
      s \<lparr> p_items := p_items s @ [item], itemCounter := Suc (itemCounter s),
          itemIdMap := (itemIdMap s)(itemId \<mapsto> item) \<rparr>"
    and pi: "item_parentContainerId item = top_id (groupStack s)"
    by (simp add: add_item_def Let_def)
  from assms have sub: "set (groupStack s) \<subseteq> set (p_containers s)" by (simp add: parser_inv_def)
  from top_id_in [OF sub] pi
  have new: "item_parentContainerId item = None \<or>
      (\<exists>c \<in> set (p_containers s). item_parentContainerId item = Some (cont_id c))"
    by (metis nth_mem)
  from assms have old: "\<forall>i \<in> set (p_items s).
         item_parentContainerId i = None \<or>
         (\<exists>c \<in> set (p_containers s). item_parentContainerId i = Some (cont_id c))"
    by (simp add: parser_inv_def)
  from new old have 3: "\<forall>i \<in> set (p_items s @ [item]).
         item_parentContainerId i = None \<or>
         (\<exists>c \<in> set (p_containers s). item_parentContainerId i = Some (cont_id c))"
    by simp
  from assms have "\<forall>k v. itemIdMap s k = Some v \<longrightarrow> v \<in> set (p_items s)"
    by (simp add: parser_inv_def)
  then have 4: "\<forall>k v. ((itemIdMap s)(itemId \<mapsto> item)) k = Some v \<longrightarrow> v \<in> set (p_items s @ [item])"
    by simp
  from assms have "\<forall>e \<in> set (p_connections s).
         conn_from e \<in> item_id ` set (p_items s) \<and> conn_to e \<in> item_id ` set (p_items s)"
    by (simp add: parser_inv_def)
  then have 5: "\<forall>e \<in> set (p_connections s).
         conn_from e \<in> item_id ` set (p_items s @ [item]) \<and>
         conn_to e \<in> item_id ` set (p_items s @ [item])"
    by simp
  from assms have 2: "\<forall>k < length (p_containers s).
         cont_parentContainerId (p_containers s ! k) = None \<or>
         (\<exists>j < k. cont_parentContainerId (p_containers s ! k)
                     = Some (cont_id (p_containers s ! j)))"
    by (simp add: parser_inv_def)
  from sub 2 3 4 5 show ?thesis
    unfolding ai parser_inv_def by simp
qed

lemma add_connection_cases:
  "(add_connection E fromId toId label s = s \<and>
      (itemIdMap s fromId = None \<or> itemIdMap s toId = None)) \<or>
   (\<exists>f t e. itemIdMap s fromId = Some f \<and> itemIdMap s toId = Some t \<and>
      add_connection E fromId toId label s = s \<lparr> p_connections := p_connections s @ [e] \<rparr> \<and>
      conn_from e = item_id f \<and> conn_to e = item_id t)"
proof (cases "itemIdMap s fromId")
  case None
  then show ?thesis by (simp add: add_connection_def)
next
  case f: (Some f)
  show ?thesis
  proof (cases "itemIdMap s toId")
    case None
    with f show ?thesis by (simp add: add_connection_def)
  next
    case t: (Some t)
    define e where "e = \<lparr> conn_id = ''conn-'' @ show_nat (Date_now E (lineNo s)) @ ''-''
                               @ Math_random E (lineNo s),
                   conn_from = item_id f, conn_to = item_id t,
                   conn_label = (if truthy_str label then label else Some []) \<rparr>"
    from f t have "add_connection E fromId toId label s
        = s \<lparr> p_connections := p_connections s @ [e] \<rparr>"
      by (simp add: add_connection_def e_def)
    moreover have "conn_from e = item_id f" "conn_to e = item_id t" by (simp_all add: e_def)
    ultimately show ?thesis using f t by blast
  qed
qed

lemma parser_inv_add_connection:
  assumes "parser_inv s"
  shows "parser_inv (add_connection E fromId toId label s)"
proof -
  from add_connection_cases [of E fromId toId label s] show ?thesis
  proof
    assume "add_connection E fromId toId label s = s \<and>
      (itemIdMap s fromId = None \<or> itemIdMap s toId = None)"
    with assms show ?thesis by simp
  next
    assume "\<exists>f t e. itemIdMap s fromId = Some f \<and> itemIdMap s toId = Some t \<and>
      add_connection E fromId toId label s = s \<lparr> p_connections := p_connections s @ [e] \<rparr> \<and>
      conn_from e = item_id f \<and> conn_to e = item_id t"
    then obtain f t e where m: "itemIdMap s fromId = Some f" "itemIdMap s toId = Some t"
      and ac: "add_connection E fromId toId label s = s \<lparr> p_connections := p_connections s @ [e] \<rparr>"
      and e: "conn_from e = item_id f" "conn_to e = item_id t" by blast
    from assms m have "f \<in> set (p_items s)" "t \<in> set (p_items s)"
      by (simp_all add: parser_inv_def)
    with e have "conn_from e \<in> item_id ` set (p_items s) \<and> conn_to e \<in> item_id ` set (p_items s)"
      by simp
    with assms show ?thesis unfolding ac parser_inv_def by simp
  qed
qed

lemma parser_inv_parse_line:
  assumes "parser_inv s"
  shows "parser_inv (parse_line E line s)"
  using assms
  by (simp add: parse_line_def parser_inv_open_group parser_inv_pop parser_inv_add_item
        parser_inv_add_connection split: option.splits prod.splits)

lemma parser_inv_parse_lines:
  "parser_inv s \<Longrightarrow> parser_inv (parse_lines E ls s)"
  unfolding parse_lines_def
  by (induction ls arbitrary: s) (simp_all add: parser_inv_parse_line)

lemma digit_in: "d < 10 \<Longrightarrow> digit d \<in> set ''0123456789''"
  unfolding digit_def by (rule nth_mem) simp

lemma digit_not_dash: "d < 10 \<Longrightarrow> digit d \<noteq> CHR ''-''"
  using digit_in [of d] by auto

lemma digit_inj: "a < 10 \<Longrightarrow> b < 10 \<Longrightarrow> digit a = digit b \<Longrightarrow> a = b"
proof -
  assume a: "a < 10" and b: "b < 10" and e: "digit a = digit b"
  have d: "distinct ''0123456789''" by simp
  from a b have "a < length ''0123456789''" "b < length ''0123456789''" by simp_all
  with d e show "a = b" unfolding digit_def by (simp add: nth_eq_iff_index_eq)
qed

lemma show_nat_small: "n < 10 \<Longrightarrow> show_nat n = [digit n]"
  by (simp add: show_nat.simps)

lemma show_nat_big: "\<not> n < 10 \<Longrightarrow> show_nat n = show_nat (n div 10) @ [digit (n mod 10)]"
  by (subst show_nat.simps) simp

lemma show_nat_no_dash: "CHR ''-'' \<notin> set (show_nat n)"
proof (induction n rule: show_nat.induct)
  case (1 n)
  show ?case
  proof (cases "n < 10")
    case True
    then show ?thesis using digit_not_dash [of n] by (simp add: show_nat_small)
  next
    case False
    have "n mod 10 < 10" by simp
    then have "digit (n mod 10) \<noteq> CHR ''-''" by (rule digit_not_dash)
    with False 1 show ?thesis by (simp add: show_nat_big)
  qed
qed

lemma show_nat_nonempty: "show_nat n \<noteq> []"
  by (cases "n < 10") (simp_all add: show_nat_small show_nat_big)

lemma show_nat_inj: "show_nat n = show_nat m \<Longrightarrow> n = m"
proof (induction n arbitrary: m rule: show_nat.induct)
  case (1 n)
  show ?case
  proof (cases "n < 10")
    case n: True
    show ?thesis
    proof (cases "m < 10")
      case True
      with n 1(2) show ?thesis by (simp add: show_nat_small digit_inj)
    next
      case False
      with n 1(2) show ?thesis using show_nat_nonempty [of "m div 10"]
        by (simp add: show_nat_small show_nat_big)
    qed
  next
    case n: False
    show ?thesis
    proof (cases "m < 10")
      case True
      with n 1(2) show ?thesis using show_nat_nonempty [of "n div 10"]
        by (simp add: show_nat_small show_nat_big)
    next
      case False
      with n 1(2) have e: "show_nat (n div 10) = show_nat (m div 10)"
        "digit (n mod 10) = digit (m mod 10)"
        by (simp_all add: show_nat_big)
      from 1(1) [OF n e(1)] have "n div 10 = m div 10" .
      moreover from e(2) have "n mod 10 = m mod 10" by (intro digit_inj) simp_all
      ultimately show ?thesis by (metis div_mult_mod_eq)
    qed
  qed
qed

lemma sep_split:
  assumes "sep \<notin> set xs" and "sep \<notin> set xs'" and "xs @ sep # ys = xs' @ sep # ys'"
  shows "xs = xs'"
proof -
  from assms(1) have "takeWhile (\<lambda>c. c \<noteq> sep) (xs @ sep # ys) = xs"
    by (auto simp: takeWhile_tail)
  moreover from assms(2) have "takeWhile (\<lambda>c. c \<noteq> sep) (xs' @ sep # ys') = xs'"
    by (auto simp: takeWhile_tail)
  ultimately show ?thesis using assms(3) by simp
qed

lemma container_id_inj:
  assumes "''container-'' @ show_nat k @ ''-'' @ show_nat t
         = ''container-'' @ show_nat k' @ ''-'' @ show_nat t'"
  shows "k = k'"
proof -
  from assms have "show_nat k @ CHR ''-'' # show_nat t = show_nat k' @ CHR ''-'' # show_nat t'"
    by simp
  then have "show_nat k = show_nat k'"
    by (rule sep_split [OF show_nat_no_dash show_nat_no_dash])
  then show ?thesis by (rule show_nat_inj)
qed

lemma ids_inv_initial: "ids_inv initial_parser"
  by (simp add: ids_inv_def initial_parser_def)

lemma ids_inv_lineNo [simp]: "ids_inv (s \<lparr> lineNo := n \<rparr>) = ids_inv s"
  by (simp add: ids_inv_def)

lemma ids_inv_open_group:
  assumes "ids_inv s"
  shows "ids_inv (open_group E groupId groupName iconName s)"
proof -
  obtain c where og: "open_group E groupId groupName iconName s =
      s \<lparr> p_containers := p_containers s @ [c], groupStack := groupStack s @ [c],
          containerCounter := Suc (containerCounter s),
          containerIdMap := (containerIdMap s)(groupId \<mapsto> c) \<rparr>"
    and ci: "cont_id c = ''container-'' @ show_nat (containerCounter s) @ ''-''
                          @ show_nat (Date_now E (lineNo s))"
    by (cases "classify_group groupName") (simp add: open_group_def Let_def)
  from assms have n: "containerCounter s = length (p_containers s)"
    and old: "\<forall>k < length (p_containers s).
         \<exists>t. cont_id (p_containers s ! k) = ''container-'' @ show_nat k @ ''-'' @ show_nat t"
    by (simp_all add: ids_inv_def)
  have "\<exists>t. cont_id ((p_containers s @ [c]) ! k) = ''container-'' @ show_nat k @ ''-'' @ show_nat t"
    if "k < Suc (length (p_containers s))" for k
  proof (cases "k < length (p_containers s)")
    case True
    with old show ?thesis by (simp add: nth_append)
  next
    case False
    with that have "k = length (p_containers s)" by simp
    with ci n show ?thesis by (auto simp: nth_append)
  qed
  with n show ?thesis unfolding og ids_inv_def by simp
qed

lemma ids_inv_add_item: "ids_inv s \<Longrightarrow> ids_inv (add_item E itemId itemName iconName s)"
  by (simp add: ids_inv_def add_item_def Let_def)

lemma ids_inv_add_connection: "ids_inv s \<Longrightarrow> ids_inv (add_connection E fromId toId label s)"
  by (simp add: ids_inv_def add_connection_def split: option.splits)

lemma ids_inv_parse_line: "ids_inv s \<Longrightarrow> ids_inv (parse_line E line s)"
proof -
  assume a: "ids_inv s"
  then have "ids_inv (s \<lparr> groupStack := butlast (groupStack s) \<rparr>)" by (simp add: ids_inv_def)
  with a show ?thesis
    by (simp add: parse_line_def ids_inv_open_group ids_inv_add_item ids_inv_add_connection
        split: option.splits prod.splits)
qed

lemma ids_inv_parse_lines: "ids_inv s \<Longrightarrow> ids_inv (parse_lines E ls s)"
  unfolding parse_lines_def
  by (induction ls arbitrary: s) (simp_all add: ids_inv_parse_line)

lemma ids_inv_distinct:
  assumes "ids_inv s"
  shows "distinct (map cont_id (p_containers s))"
proof -
  have "i = j" if "i < length (p_containers s)" "j < length (p_containers s)"
    "cont_id (p_containers s ! i) = cont_id (p_containers s ! j)" for i j
  proof -
    from assms that(1) obtain t where
      "cont_id (p_containers s ! i) = ''container-'' @ show_nat i @ ''-'' @ show_nat t"
      unfolding ids_inv_def by blast
    moreover from assms that(2) obtain t' where
      "cont_id (p_containers s ! j) = ''container-'' @ show_nat j @ ''-'' @ show_nat t'"
      unfolding ids_inv_def by blast
    ultimately show ?thesis using that(3) container_id_inj by metis
  qed
  then show ?thesis unfolding distinct_conv_nth by auto
qed

lemma distinct_ids_eq:
  assumes "distinct (map cont_id cs)" and "i < length cs" and "j < length cs"
    and "cont_id (cs ! i) = cont_id (cs ! j)"
  shows "i = j"
proof -
  from assms(2-4) have e: "map cont_id cs ! i = map cont_id cs ! j" by simp
  from assms(2,3) have "i < length (map cont_id cs)" "j < length (map cont_id cs)" by simp_all
  from nth_eq_iff_index_eq [OF assms(1) this] e show ?thesis by blast
qed

lemma parent_of_nth:
  assumes "distinct (map cont_id cs)" and "k < length cs"
  shows "parent_of cs (cont_id (cs ! k)) = cont_parentContainerId (cs ! k)"
proof -
  have "find (\<lambda>c. cont_id c = cont_id (cs ! k)) cs = Some (cs ! k)"
    unfolding find_Some_iff
  proof (intro exI[of _ k] conjI allI impI)
    fix j assume "j < k"
    with assms show "cont_id (cs ! j) \<noteq> cont_id (cs ! k)"
      using distinct_ids_eq [of cs j k] by auto
  qed (use assms in simp_all)
  then show ?thesis by (simp add: parent_of_def)
qed

lemma ancestor_step_index:
  assumes d: "distinct (map cont_id cs)"
    and e: "\<forall>k < length cs. cont_parentContainerId (cs ! k) = None \<or>
             (\<exists>j < k. cont_parentContainerId (cs ! k) = Some (cont_id (cs ! j)))"
    and s: "(p, q) \<in> ancestor_step cs"
  shows "\<exists>k j. j < k \<and> k < length cs \<and> p = cont_id (cs ! k) \<and> q = cont_id (cs ! j)"
proof -
  from s have pq: "parent_of cs p = Some q" by (simp add: ancestor_step_def)
  then obtain c where "c \<in> set cs" "cont_id c = p" by (auto dest: parent_of_SomeD)
  then obtain k where k: "k < length cs" "cs ! k = c" by (auto simp: in_set_conv_nth)
  with \<open>cont_id c = p\<close> pq parent_of_nth [OF d k(1)]
  have "cont_parentContainerId (cs ! k) = Some q" by simp
  with e k(1) obtain j where "j < k" "q = cont_id (cs ! j)" by auto
  with k \<open>cont_id c = p\<close> show ?thesis by blast
qed

lemma ancestor_trancl_index:
  assumes d: "distinct (map cont_id cs)"
    and e: "\<forall>k < length cs. cont_parentContainerId (cs ! k) = None \<or>
             (\<exists>j < k. cont_parentContainerId (cs ! k) = Some (cont_id (cs ! j)))"
    and s: "(p, q) \<in> (ancestor_step cs)\<^sup>+"
  shows "\<exists>k j. j < k \<and> k < length cs \<and> p = cont_id (cs ! k) \<and> q = cont_id (cs ! j)"
  using s
proof (induction rule: trancl_induct)
  case (base q)
  then show ?case by (rule ancestor_step_index [OF d e])
next
  case (step q r)
  from step.IH obtain k j where kj: "j < k" "k < length cs" "p = cont_id (cs ! k)"
    "q = cont_id (cs ! j)" by blast
  from ancestor_step_index [OF d e step.hyps(2)] obtain k' j' where kj': "j' < k'"
    "k' < length cs" "q = cont_id (cs ! k')" "r = cont_id (cs ! j')" by blast
  from kj(1,2) have "j < length cs" by simp
  with d kj(4) kj'(2,3) have "j = k'" by (intro distinct_ids_eq [of cs]) simp_all
  with kj kj' have "j' < k \<and> k < length cs \<and> p = cont_id (cs ! k) \<and> r = cont_id (cs ! j')"
    by simp
  then show ?case by blast
qed

lemma acyclic_ancestor_step:
  assumes d: "distinct (map cont_id cs)"
    and e: "\<forall>k < length cs. cont_parentContainerId (cs ! k) = None \<or>
             (\<exists>j < k. cont_parentContainerId (cs ! k) = Some (cont_id (cs ! j)))"
  shows "acyclic (ancestor_step cs)"
proof (rule acyclicI, rule allI, rule notI)
  fix p assume "(p, p) \<in> (ancestor_step cs)\<^sup>+"
  from ancestor_trancl_index [OF d e this] obtain k j where kj: "j < k" "k < length cs"
    "p = cont_id (cs ! k)" "p = cont_id (cs ! j)" by blast
  then have "j < length cs" by simp
  with d kj have "j = k" by (intro distinct_ids_eq [of cs]) simp_all
  with kj(1) show False by simp
qed

section \<open>Parser results\<close>

lemma parse_inv_result:
  "parser_inv (parse_lines E ls initial_parser) \<and> ids_inv (parse_lines E ls initial_parser)"
  by (simp add: parser_inv_parse_lines parser_inv_initial ids_inv_parse_lines ids_inv_initial)

lemma eval_nested:
  \<open>parseEraserFormat sample_environment nested_groups =
    ([\<lparr>item_id = ''ec2-0-42'', item_name = ''EC2'', item_customName = None,
        item_color = ''#FF9900'', item_category = ''Compute'', item_x = 340, item_y = 240,
        item_parentContainerId = Some ''container-1-41'', item_type = ''service''\<rparr>],
     [\<lparr>cont_id = ''container-0-40'', cont_name = ''My VPC'', cont_color = ''#FF6B6B'',
        cont_borderStyle = Some ''solid'', cont_x = 100, cont_y = 100, cont_width = 400,
        cont_height = 320, cont_parentContainerId = None, cont_type = ''container''\<rparr>,
      \<lparr>cont_id = ''container-1-41'', cont_name = ''Public Subnet'', cont_color = ''#94A3B8'',
        cont_borderStyle = Some ''dashed'', cont_x = 160, cont_y = 160, cont_width = 360,
        cont_height = 280, cont_parentContainerId = Some ''container-0-40'',
        cont_type = ''container''\<rparr>],
     [])\<close>
  by code_simp

lemma eval_two_nodes:
  \<open>parseEraserFormat sample_environment two_nodes_one_edge =
    ([\<lparr>item_id = ''ec2-0-40'', item_name = ''EC2'', item_customName = Some ''Web'',
        item_color = ''#FF9900'', item_category = ''Compute'', item_x = 280, item_y = 180,
        item_parentContainerId = None, item_type = ''service''\<rparr>,
      \<lparr>item_id = ''rds-1-41'', item_name = ''RDS'', item_customName = Some ''DB'',
        item_color = ''#527FFF'', item_category = ''Database'', item_x = 380, item_y = 180,
        item_parentContainerId = None, item_type = ''service''\<rparr>],
     [],
     [\<lparr>conn_id = ''conn-42-k3j9x2m1q'', conn_from = ''ec2-0-40'', conn_to = ''rds-1-41'',
        conn_label = Some ''query''\<rparr>])\<close>
  by code_simp

text \<open>
  Claim C9. For every text and every environment, the parser's result is consistent: a
  node's parent is null or the id of a group of the result; a group's parent is null or
  the id of a group earlier in the result; both ends of every edge are ids of nodes of
  the result; the group ids are pairwise different and the parent relation on them is
  acyclic.
\<close>

theorem parseEraserFormat_consistent:
  "case parseEraserFormat E mermaidText of (items, cs, conns) \<Rightarrow>
     (\<forall>i \<in> set items. item_parentContainerId i = None \<or>
        (\<exists>c \<in> set cs. item_parentContainerId i = Some (cont_id c))) \<and>
     (\<forall>k < length cs. cont_parentContainerId (cs ! k) = None \<or>
        (\<exists>j < k. cont_parentContainerId (cs ! k) = Some (cont_id (cs ! j)))) \<and>
     (\<forall>e \<in> set conns. conn_from e \<in> item_id ` set items \<and> conn_to e \<in> item_id ` set items) \<and>
     distinct (map cont_id cs) \<and> acyclic (ancestor_step cs)"
proof -
  define s where "s = parse_lines E
     (filter (\<lambda>line. length line > 0) (map trim (split_on (CHR 0x0A) mermaidText))) initial_parser"
  have r: "parseEraserFormat E mermaidText = (p_items s, p_containers s, p_connections s)"
    by (simp add: parseEraserFormat_def s_def Let_def)
  from parse_inv_result have inv: "parser_inv s" and ids: "ids_inv s"
    unfolding s_def by blast+
  from inv have 1: "\<forall>i \<in> set (p_items s). item_parentContainerId i = None \<or>
        (\<exists>c \<in> set (p_containers s). item_parentContainerId i = Some (cont_id c))"
    by (simp add: parser_inv_def)
  from inv have 2: "\<forall>k < length (p_containers s).
        cont_parentContainerId (p_containers s ! k) = None \<or>
        (\<exists>j < k. cont_parentContainerId (p_containers s ! k)
                    = Some (cont_id (p_containers s ! j)))"
    by (simp add: parser_inv_def)
  from inv have 3: "\<forall>e \<in> set (p_connections s).
        conn_from e \<in> item_id ` set (p_items s) \<and> conn_to e \<in> item_id ` set (p_items s)"
    by (simp add: parser_inv_def)
  from ids have 4: "distinct (map cont_id (p_containers s))" by (rule ids_inv_distinct)
  from 4 2 have 5: "acyclic (ancestor_step (p_containers s))" by (rule acyclic_ancestor_step)
  from 1 2 3 4 5 show ?thesis unfolding r by simp
qed

theorem parseEraserFormat_consistent_witness:
  \<open>(case parseEraserFormat sample_environment nested_groups of (items, cs, conns) \<Rightarrow>
      map item_parentContainerId items = [Some ''container-1-41''] \<and>
      map cont_id cs = [''container-0-40'', ''container-1-41''] \<and>
      map cont_parentContainerId cs = [None, Some ''container-0-40''] \<and>
      acyclic (ancestor_step cs)) \<and>
   (case parseEraserFormat sample_environment two_nodes_one_edge of (items, cs, conns) \<Rightarrow>
      map item_id items = [''ec2-0-40'', ''rds-1-41''] \<and>
      map (\<lambda>e. (conn_from e, conn_to e)) conns = [(''ec2-0-40'', ''rds-1-41'')])\<close>
proof -
  from parseEraserFormat_consistent [of sample_environment nested_groups]
  have a: "case parseEraserFormat sample_environment nested_groups of (items, cs, conns) \<Rightarrow>
      acyclic (ancestor_step cs)"
    by (simp add: case_prod_beta)
  from parseEraserFormat_consistent [of sample_environment two_nodes_one_edge]
  have b: "case parseEraserFormat sample_environment two_nodes_one_edge of (items, cs, conns) \<Rightarrow>
      (\<forall>e \<in> set conns. conn_from e \<in> item_id ` set items \<and> conn_to e \<in> item_id ` set items)"
    by (simp add: case_prod_beta)
  from a b show ?thesis by (simp add: eval_nested eval_two_nodes)
qed

text \<open>
  Claim C7. On an edge line (the loop body reaches the connection branch and the
  expression matches, giving the two identifiers), the parser adds an edge exactly when
  both identifiers are in the node table, and then the ends of the edge are the ids of the
  two nodes found there; otherwise (an identifier is undefined, or names only a group)
  the state stays as it is. The node table holds nodes defined by earlier lines only.
\<close>

theorem edge_line_needs_two_nodes:
  assumes "edge_line line = Some (fromId, toId, label)"
  shows "(itemIdMap s fromId = None \<or> itemIdMap s toId = None \<longrightarrow> parse_line E line s = s) \<and>
         (\<forall>f t. itemIdMap s fromId = Some f \<and> itemIdMap s toId = Some t \<longrightarrow>
            (\<exists>e. parse_line E line s = s \<lparr> p_connections := p_connections s @ [e] \<rparr> \<and>
                 conn_from e = item_id f \<and> conn_to e = item_id t)) \<and>
         (parser_inv s \<longrightarrow>
            (\<forall>f. itemIdMap s fromId = Some f \<or> itemIdMap s toId = Some f \<longrightarrow> f \<in> set (p_items s)))"
proof -
  have 1: "\<not> (startsWith line ''//'' \<or> startsWith line ''direction'')"
    using assms by (rule_tac notI) (simp add: edge_line_def)
  have 2: "\<not> (js_includes line ''['' \<and> js_includes line ''icon:'' \<and> js_includes line ''{'')"
    using assms 1 by (rule_tac notI) (simp add: edge_line_def)
  have 3: "line \<noteq> ''}''"
    using assms 1 2 by (rule_tac notI) (simp add: edge_line_def)
  have 4: "\<not> (js_includes line ''[label:'' \<and> js_includes line ''icon:'' \<and> \<not> js_includes line ''{'')"
    using assms 1 2 3 by (rule_tac notI) (simp add: edge_line_def)
  have 5: "js_includes line '' > ''"
    using assms 1 2 3 4 by (rule_tac ccontr) (simp add: edge_line_def)
  from assms 1 2 3 4 5 have 6: "match2o connection_regex line = Some (fromId, toId, label)"
    by (simp add: edge_line_def)
  have pl: "parse_line E line s = add_connection E fromId toId label s"
  proof -
    from 1 have a: "(startsWith line ''//'' \<or> startsWith line ''direction'') = False" by simp
    from 2 have b: "(js_includes line ''['' \<and> js_includes line ''icon:'' \<and> js_includes line ''{'')
        = False" by simp
    from 4 have c: "(js_includes line ''[label:'' \<and> js_includes line ''icon:'' \<and>
        \<not> js_includes line ''{'') = False" by simp
    show ?thesis unfolding parse_line_def a b c using 3 5 6 by simp
  qed
  have "itemIdMap s fromId = None \<or> itemIdMap s toId = None \<longrightarrow> parse_line E line s = s"
    using add_connection_cases [of E fromId toId label s] unfolding pl by auto
  moreover have "\<forall>f t. itemIdMap s fromId = Some f \<and> itemIdMap s toId = Some t \<longrightarrow>
            (\<exists>e. parse_line E line s = s \<lparr> p_connections := p_connections s @ [e] \<rparr> \<and>
                 conn_from e = item_id f \<and> conn_to e = item_id t)"
    using add_connection_cases [of E fromId toId label s] unfolding pl by auto
  moreover have "parser_inv s \<longrightarrow>
            (\<forall>f. itemIdMap s fromId = Some f \<or> itemIdMap s toId = Some f \<longrightarrow> f \<in> set (p_items s))"
    by (auto simp: parser_inv_def)
  ultimately show ?thesis by blast
qed

lemma edge_line_AB: \<open>edge_line ''A > B : "query"'' = Some (''A'', ''B'', Some ''query'')\<close>
  by code_simp

lemma edge_line_vpc_web: "edge_line ''vpc > web'' = Some (''vpc'', ''web'', None)"
  by code_simp

theorem edge_line_needs_two_nodes_witness:
  \<open>(let s = add_item sample_environment ''B'' ''DB'' ''aws-rds''
              (add_item sample_environment ''A'' ''Web'' ''aws-ec2'' initial_parser)
     in map (\<lambda>e. (conn_from e, conn_to e)) (p_connections (parse_line sample_environment ''A > B : "query"'' s))
          = [(''ec2-0-40'', ''rds-1-40'')]) \<and>
    (let s = add_item sample_environment ''web'' ''EC2'' ''aws-ec2''
              (open_group sample_environment ''vpc'' ''My VPC'' ''aws-vpc'' initial_parser)
     in containerIdMap s ''vpc'' \<noteq> None \<and> itemIdMap s ''vpc'' = None \<and>
        parse_line sample_environment ''vpc > web'' s = s)\<close>
proof -
  define s1 where "s1 = add_item sample_environment ''B'' ''DB'' ''aws-rds''
              (add_item sample_environment ''A'' ''Web'' ''aws-ec2'' initial_parser)"
  define s2 where "s2 = add_item sample_environment ''web'' ''EC2'' ''aws-ec2''
              (open_group sample_environment ''vpc'' ''My VPC'' ''aws-vpc'' initial_parser)"
  have m1: "map_option item_id (itemIdMap s1 ''A'') = Some ''ec2-0-40''"
    "map_option item_id (itemIdMap s1 ''B'') = Some ''rds-1-40''"
    "p_connections s1 = []"
    unfolding s1_def by code_simp+
  then obtain f t where ft: "itemIdMap s1 ''A'' = Some f" "item_id f = ''ec2-0-40''"
    "itemIdMap s1 ''B'' = Some t" "item_id t = ''rds-1-40''" by auto
  from edge_line_needs_two_nodes [OF edge_line_AB, of s1 sample_environment] ft(1,3)
  obtain e where "parse_line sample_environment ''A > B : \"query\"'' s1
      = s1 \<lparr> p_connections := p_connections s1 @ [e] \<rparr>"
    "conn_from e = item_id f" "conn_to e = item_id t" by blast
  with ft m1(3) have 1: "map (\<lambda>e. (conn_from e, conn_to e))
      (p_connections (parse_line sample_environment ''A > B : \"query\"'' s1))
          = [(''ec2-0-40'', ''rds-1-40'')]" by simp
  have m2: "containerIdMap s2 ''vpc'' \<noteq> None" "itemIdMap s2 ''vpc'' = None"
    unfolding s2_def by code_simp+
  from edge_line_needs_two_nodes [OF edge_line_vpc_web, of s2 sample_environment] m2(2)
  have 2: "parse_line sample_environment ''vpc > web'' s2 = s2" by blast
  from 1 2 m2 show ?thesis unfolding s1_def s2_def Let_def by blast
qed

text \<open>
  Claim C8, evaluated. \<^verbatim>\<open>itemCounter++\<close> inside the id template runs before the position is
  computed, so the position of the k-th node (counting from 0) uses \<open>k + 1\<close>: the first
  node of a text lands in column 1 (x = 180 + 1 * 100), not column 0, and the fourth in
  column 0 of row 1.
\<close>

theorem first_node_in_column_one:
  \<open>(let i = last (p_items (add_item E itemId itemName iconName s)) in
      item_x i = 180 + int (Suc (itemCounter s) mod 4) * 100 + int (length (groupStack s)) * 30 \<and>
      item_y i = 180 + int (Suc (itemCounter s) div 4) * 100 + int (length (groupStack s)) * 30) \<and>
    map (\<lambda>i. (item_x i, item_y i)) (fst (parseEraserFormat sample_environment one_node))
      = [(280, 180)] \<and>
    map (\<lambda>i. (item_x i, item_y i))
      (fst (parseEraserFormat sample_environment two_nodes_one_edge)) = [(280, 180), (380, 180)]\<close>
proof -
  have "map (\<lambda>i. (item_x i, item_y i)) (fst (parseEraserFormat sample_environment one_node))
      = [(280, 180)]"
    by code_simp
  then show ?thesis by (simp add: add_item_def Let_def eval_two_nodes)
qed

section \<open>Emitter ordering\<close>

subsection \<open>Collecting optional results\<close>

lemma those_Some_iff: "those xs = Some ys \<longleftrightarrow> xs = map Some ys"
proof (induction xs arbitrary: ys)
  case Nil
  then show ?case by auto
next
  case (Cons x xs)
  show ?case
  proof (cases x)
    case None
    then show ?thesis by auto
  next
    case (Some y)
    show ?thesis
    proof (cases "those xs")
      case None
      with Some Cons show ?thesis by (cases ys) auto
    next
      case zs: (Some zs)
      with Some Cons show ?thesis by (cases ys) auto
    qed
  qed
qed


lemma those_map_mono:
  assumes "those (map f xs) = Some ys"
    and "\<And>x y. x \<in> set xs \<Longrightarrow> f x = Some y \<Longrightarrow> f' x = Some y"
  shows "those (map f' xs) = Some ys"
proof -
  from assms(1) have e: "map f xs = map Some ys" by (simp add: those_Some_iff)
  have "map f' xs = map Some ys"
  proof (rule nth_equalityI)
    from e show "length (map f' xs) = length (map Some ys)"
      by (metis length_map)
  next
    fix i assume "i < length (map f' xs)"
    then have i: "i < length xs" by simp
    with e have "f (xs ! i) = Some (ys ! i)"
      by (metis length_map nth_map)
    with i assms(2) have "f' (xs ! i) = Some (ys ! i)" by simp
    moreover from e i have "i < length ys" by (metis length_map)
    ultimately show "map f' xs ! i = map Some ys ! i" using i by simp
  qed
  then show ?thesis by (simp add: those_Some_iff)
qed




subsection \<open>Fuel\<close>

lemma block_tags_Suc:
  "block_tags n items cs g = Some xs \<Longrightarrow> block_tags (Suc n) items cs g = Some xs"
proof (induction n arbitrary: g xs)
  case 0
  then show ?case by simp
next
  case (Suc n)
  show ?case
  proof (cases "find (\<lambda>c. cont_id c = g) cs")
    case None
    with Suc.prems show ?thesis by simp
  next
    case (Some c)
    let ?ch = "filter (\<lambda>c'. cont_parentContainerId c' = Some (cont_id c)) cs"
    from Suc.prems Some obtain blocks where
      b: "those (map (\<lambda>child. block_tags n items cs (cont_id child)) ?ch) = Some blocks"
      and xs: "xs = GroupOpen (cont_id c)
                     # map (\<lambda>item. NodeLine (item_id item))
                         (filter (\<lambda>item. item_parentContainerId item = Some (cont_id c)) items)
                     @ concat blocks @ [GroupClose (cont_id c)]"
      by (auto split: option.splits)
    from b have "those (map (\<lambda>child. block_tags (Suc n) items cs (cont_id child)) ?ch) = Some blocks"
      by (rule those_map_mono) (rule Suc.IH)
    with Some xs show ?thesis by (subst block_tags.simps) simp
  qed
qed

lemma block_tags_mono:
  "block_tags n items cs g = Some xs \<Longrightarrow> n \<le> m \<Longrightarrow> block_tags m items cs g = Some xs"
proof (induction m)
  case 0
  then show ?case by simp
next
  case (Suc m)
  show ?case
  proof (cases "n \<le> m")
    case True
    with Suc have "block_tags m items cs g = Some xs" by simp
    then show ?thesis by (rule block_tags_Suc)
  next
    case False
    with Suc.prems have "n = Suc m" by simp
    with Suc.prems show ?thesis by simp
  qed
qed

lemma block_tags_unique:
  assumes "block_tags n items cs g = Some xs" and "block_tags m items cs g = Some ys"
  shows "xs = ys"
proof -
  from assms(1) have "block_tags (max n m) items cs g = Some xs" by (rule block_tags_mono) simp
  moreover from assms(2) have "block_tags (max n m) items cs g = Some ys"
    by (rule block_tags_mono) simp
  ultimately show ?thesis by simp
qed



subsection \<open>Both emitters produce the tags of the traversal\<close>



subsection \<open>Subtrees\<close>









lemma block_outside:
  assumes "find (\<lambda>c. cont_id c = g) cs = None"
  shows "block_tags n items cs g = None \<or> block_tags n items cs g = Some []"
  using assms by (cases n) simp_all


subsection \<open>Disjoint subtrees\<close>








subsection \<open>Every tag of a block occurs once\<close>


subsection \<open>Blocks inside blocks\<close>




subsection \<open>Root groups\<close>






subsection \<open>The whole output\<close>






subsection \<open>The output does not depend on the fuel\<close>












subsection \<open>Every piece of a block is a line of the emitter\<close>




subsection \<open>From tags to lines\<close>



subsection \<open>The two emitters\<close>


lemma fst_lines [simp]:
  "fst (eraser_open logoMap items k c) = GroupOpen (cont_id c)"
  "fst (eraser_close k c) = GroupClose (cont_id c)"
  "fst (eraser_node logoMap k i) = NodeLine (item_id i)"
  "fst (flowchart_open k c) = GroupOpen (cont_id c)"
  "fst (flowchart_close k c) = GroupClose (cont_id c)"
  "fst (flowchart_node_at k i) = NodeLine (item_id i)"
  "fst (eraser_edge e) = EdgeLine (conn_id e)"
  "fst (flowchart_edge e) = EdgeLine (conn_id e)"
  "fst (flowchart_style i) = StyleLine (item_id i)"
  by (simp_all add: eraser_open_def Let_def eraser_close_def eraser_node_def flowchart_open_def
        flowchart_close_def flowchart_node_at_def flowchart_node_def eraser_edge_def
        flowchart_edge_def flowchart_style_def)

lemma structural_simps [simp]:
  "structural Header" "structural Blank" "structural (NodeLine n)" "structural (GroupOpen g)"
  "structural (GroupClose g)" "\<not> structural Comment" "\<not> structural (EdgeLine e)"
  "\<not> structural (StyleLine s)"
  by (simp_all add: structural_def)














end
